theory Spec2Isabelle
  imports Main "HOL-Library.Word"
begin

section \<open>Room event ingestion: data model\<close>

text \<open>
  The development embeds \<^verbatim>\<open>roomserver/internal/input/input_events.go\<close>:
  \<^verbatim>\<open>processRoomEvent\<close>, \<^verbatim>\<open>checkForMissingAuthEvents\<close>,
  \<^verbatim>\<open>checkForMissingPrevEvents\<close> and \<^verbatim>\<open>calculateAndSetState\<close>.
  The Store (\<^verbatim>\<open>r.DB\<close>), the federation API (\<^verbatim>\<open>r.FSAPI\<close>), the helpers
  of package \<^verbatim>\<open>helpers\<close>, \<^verbatim>\<open>updateLatestEvents\<close> and the output sink are
  collaborators whose code is elsewhere: they are parameters of the model (the record
  \<open>env\<close>), every call to one of them is recorded, with its arguments and its answer,
  in a trace, and the theorems hold for every such environment.
\<close>

text \<open>
  A Go \<^verbatim>\<open>error\<close> value. \<^verbatim>\<open>fmt.Errorf("msg")\<close> is \<open>Errorf msg\<close> and
  \<^verbatim>\<open>fmt.Errorf("ctx: %w", err)\<close> is \<open>Wrapped ctx err\<close>. A Go result
  \<^verbatim>\<open>error\<close> that may be \<^verbatim>\<open>nil\<close> is an \<open>error option\<close>.
\<close>

datatype error = Errorf string | Wrapped string error

text \<open>
  Modelled from the spec: the declaration of \<^verbatim>\<open>api.Kind\<close> is not part of the file;
  the data model gives \<open>Kind \<in> {New, Old, Outlier}\<close>.
\<close>

datatype kind = KindOutlier | KindNew | KindOld

datatype event_id_format = EventIDFormatV1 | EventIDFormatV2 | EventIDFormatV3

datatype topological_order = TopologicalOrderByPrevEvents | TopologicalOrderByAuthEvents

text \<open>
  An event, with the accessors the code reads (\<^verbatim>\<open>EventID()\<close>, \<^verbatim>\<open>RoomID()\<close>,
  \<^verbatim>\<open>Type()\<close>, \<^verbatim>\<open>Sender()\<close>, \<^verbatim>\<open>AuthEventIDs()\<close>,
  \<^verbatim>\<open>EventReference().EventSHA256\<close>) and its content, which a redaction strips.
\<close>

record event =
  eventID :: string
  roomID :: string
  eventType :: string
  sender :: string
  authEventIDs :: "string list"
  eventSHA256 :: "8 word list"
  content :: string

text \<open>A headered event: the event (\<^verbatim>\<open>Unwrap()\<close>) and its room version.\<close>

record headered_event =
  Unwrap :: event
  RoomVersion :: string

text \<open>
  \<^verbatim>\<open>redactionEvent.Headered(roomVersion)\<close>, where the redaction event is a pointer
  that may be \<^verbatim>\<open>nil\<close>.
\<close>

type_synonym headered_redaction = "event option \<times> string"

definition Headered :: "event option \<Rightarrow> string \<Rightarrow> headered_redaction" where
  "Headered e roomVersion = (e, roomVersion)"

type_synonym transaction_id = "int \<times> string"

record input_room_event =
  Kind :: kind
  Event :: headered_event
  AuthEventIDs :: "string list"
  StateEventIDs :: "string list"
  HasState :: bool
  SendAsServer :: string
  TransactionID :: "transaction_id option"

text \<open>
  Modelled from the spec: \<^verbatim>\<open>types.StateAtEvent\<close> is declared elsewhere; the data
  model gives the pair \<open>(EventNID, BeforeStateSnapshotNID)\<close> plus an \<open>Overwrite\<close>
  flag, with snapshot 0 the sentinel for "no snapshot computed yet".
\<close>

record state_at_event =
  Overwrite :: bool
  BeforeStateSnapshotNID :: int
  EventNID :: int

text \<open>
  Modelled from the spec: a state entry is \<open>(StateKeyTupleNID, EventNID)\<close>; of
  \<^verbatim>\<open>types.RoomInfo\<close> the code reads the \<open>RoomNID\<close> only.
\<close>

type_synonym state_entry = "int \<times> int"

record room_info =
  RoomNID :: int
  infoRoomVersion :: string

text \<open>
  What \<^verbatim>\<open>r.DB.StoreEvent\<close> returns when it succeeds: the first result (which the
  code ignores), the state at the event, the redaction event (a pointer, possibly
  \<^verbatim>\<open>nil\<close>) and the ID of the redacted event (possibly empty).
\<close>

record store_result =
  storedNID :: int
  stateAtEvent :: state_at_event
  redactionEvent :: "event option"
  redactedEventID :: string

text \<open>
  The output entries that \<^verbatim>\<open>processRoomEvent\<close> builds itself. A
  \<^verbatim>\<open>NewRoomEvent\<close> entry is produced inside \<^verbatim>\<open>updateLatestEvents\<close>, which is
  a collaborator here.
\<close>

datatype output_event =
    OutputOldRoomEvent headered_event
  | OutputRedactedEvent string headered_redaction

section \<open>Collaborators and the trace of calls\<close>

text \<open>
  One entry per call to a collaborator: the arguments, then the answer. An answer
  \<open>error + 'a\<close> is a Go pair \<^verbatim>\<open>(value, err)\<close> whose value the code reads only
  when \<^verbatim>\<open>err == nil\<close>; where the code reads the value whatever the error is, the
  answer is the pair itself.
\<close>

datatype call =
    EventsFromIDsCall "string list" "error + event list"
  | EventNIDsCall "string list" "error + (string \<rightharpoonup> int)"
  | StoreEventCall event "int list" bool "error + store_result"
  | QueryEventAuthFromFederationCall string string "error + event list"
  | CheckAuthEventsCall headered_event "string list" "int list \<times> error option"
  | CheckForSoftFailCall headered_event "string list" "bool \<times> error option"
  | RoomInfoCall string "error + room_info option"
  | GetMembershipEventNIDsForRoomCall int bool bool "error + int list"
  | StateEntriesForEventIDsCall "string list" "error + state_entry list"
  | AddStateCall int "int list" "state_entry list" "int \<times> error option"
  | CalculateAndStoreStateBeforeEventCall room_info event bool "int \<times> error option"
  | SetStateCall int int "error option"
  | UpdateLatestEventsCall room_info state_at_event event string "transaction_id option" bool
      "error option"
  | WriteOutputEventsCall string "output_event list" "error option"

text \<open>
  The environment: the pure library functions the code uses, and the stateful
  collaborators, each a function of the world \<open>'w\<close> (database, network, output log)
  that returns its answer and the next world.
\<close>

record 'w env =
  EventIDFormat :: "string \<Rightarrow> error + event_id_format"
  ReverseTopologicalOrdering :: "event list \<Rightarrow> topological_order \<Rightarrow> event list"
  RedactEvent :: "event option \<Rightarrow> event \<Rightarrow> error + event"
  DeduplicateStateEntries :: "state_entry list \<Rightarrow> state_entry list"
  EventsFromIDs :: "'w \<Rightarrow> string list \<Rightarrow> (error + event list) \<times> 'w"
  EventNIDs :: "'w \<Rightarrow> string list \<Rightarrow> (error + (string \<rightharpoonup> int)) \<times> 'w"
  StoreEvent :: "'w \<Rightarrow> event \<Rightarrow> int list \<Rightarrow> bool \<Rightarrow> (error + store_result) \<times> 'w"
  RoomInfo :: "'w \<Rightarrow> string \<Rightarrow> (error + room_info option) \<times> 'w"
  StateEntriesForEventIDs :: "'w \<Rightarrow> string list \<Rightarrow> (error + state_entry list) \<times> 'w"
  AddState :: "'w \<Rightarrow> int \<Rightarrow> int list \<Rightarrow> state_entry list \<Rightarrow> (int \<times> error option) \<times> 'w"
  SetState :: "'w \<Rightarrow> int \<Rightarrow> int \<Rightarrow> error option \<times> 'w"
  GetMembershipEventNIDsForRoom :: "'w \<Rightarrow> int \<Rightarrow> bool \<Rightarrow> bool \<Rightarrow> (error + int list) \<times> 'w"
  QueryEventAuthFromFederation :: "'w \<Rightarrow> string \<Rightarrow> string \<Rightarrow> (error + event list) \<times> 'w"
  CheckAuthEvents :: "'w \<Rightarrow> headered_event \<Rightarrow> string list \<Rightarrow> (int list \<times> error option) \<times> 'w"
  CheckForSoftFail :: "'w \<Rightarrow> headered_event \<Rightarrow> string list \<Rightarrow> (bool \<times> error option) \<times> 'w"
  CalculateAndStoreStateBeforeEvent ::
    "'w \<Rightarrow> room_info \<Rightarrow> event \<Rightarrow> bool \<Rightarrow> (int \<times> error option) \<times> 'w"
  updateLatestEvents ::
    "'w \<Rightarrow> room_info \<Rightarrow> state_at_event \<Rightarrow> event \<Rightarrow> string \<Rightarrow> transaction_id option \<Rightarrow> bool
      \<Rightarrow> error option \<times> 'w"
  WriteOutputEvents :: "'w \<Rightarrow> string \<Rightarrow> output_event list \<Rightarrow> error option \<times> 'w"

record 'w st =
  world :: 'w
  trace :: "call list"

definition fresh :: "'w \<Rightarrow> 'w st" where
  "fresh w = \<lparr>world = w, trace = []\<rparr>"

text \<open>A call to a collaborator: run it on the world and append the entry to the trace.\<close>

definition perform :: "('w \<Rightarrow> 'r \<times> 'w) \<Rightarrow> ('r \<Rightarrow> call) \<Rightarrow> 'w st \<Rightarrow> 'r \<times> 'w st" where
  "perform f entry s =
     (case f (world s) of (r, w) \<Rightarrow> (r, \<lparr>world = w, trace = trace s @ [entry r]\<rparr>))"

section \<open>The missing-ancestor resolver\<close>

text \<open>
  \<^verbatim>\<open>cache[authEventID]\<close> on a Go map: the zero value when the key is absent.
\<close>

definition cacheLookup :: "(string \<rightharpoonup> int) \<Rightarrow> string \<Rightarrow> int" where
  "cacheLookup cache k = (case cache k of None \<Rightarrow> 0 | Some nid \<Rightarrow> nid)"

text \<open>
  The body of the loop over the events the federation returned (lines 285 to 323), for
  one event: the error it returns, if any, the cache and the state.
\<close>

definition checkForMissingAuthEvents_body ::
  "'w env \<Rightarrow> event \<Rightarrow> (string \<rightharpoonup> int) \<Rightarrow> 'w st \<Rightarrow> error option \<times> (string \<rightharpoonup> int) \<times> 'w st" where
  "checkForMissingAuthEvents_body env ev cache s =
     (let neededAuthEventNIDs = filter (\<lambda>authEventID. cache authEventID = None) (authEventIDs ev)
      in case (if length neededAuthEventNIDs > 0
               then (case perform (\<lambda>w. EventNIDs env w neededAuthEventNIDs)
                            (EventNIDsCall neededAuthEventNIDs) s of
                       (Inl err, s1) \<Rightarrow> (Some (Wrapped ''r.DB.EventNIDs'' err), cache, s1)
                     | (Inr newAuthEventNIDs, s1) \<Rightarrow> (None, cache ++ newAuthEventNIDs, s1))
               else (None, cache, s)) of
           (Some err, cache1, s1) \<Rightarrow> (Some err, cache1, s1)
         | (None, cache1, s1) \<Rightarrow>
             (let authEventNIDsForEvent = map (cacheLookup cache1) (authEventIDs ev)
              in if length authEventNIDsForEvent \<noteq> length (authEventIDs ev)
                 then (Some (Errorf (''missing auth event NIDs for event '' @ eventID ev)),
                       cache1, s1)
                 else (case perform (\<lambda>w. StoreEvent env w ev authEventNIDsForEvent False)
                              (StoreEventCall ev authEventNIDsForEvent False) s1 of
                         (Inl err, s2) \<Rightarrow> (Some (Wrapped ''r.DB.StoreEvent'' err), cache1, s2)
                       | (Inr _, s2) \<Rightarrow> (None, cache1, s2))))"

text \<open>The loop itself: it stops at the first error.\<close>

fun checkForMissingAuthEvents_loop ::
  "'w env \<Rightarrow> event list \<Rightarrow> (string \<rightharpoonup> int) \<Rightarrow> 'w st \<Rightarrow> error option \<times> (string \<rightharpoonup> int) \<times> 'w st" where
  "checkForMissingAuthEvents_loop env [] cache s = (None, cache, s)"
| "checkForMissingAuthEvents_loop env (ev # evs) cache s =
     (case checkForMissingAuthEvents_body env ev cache s of
        (Some err, cache1, s1) \<Rightarrow> (Some err, cache1, s1)
      | (None, cache1, s1) \<Rightarrow> checkForMissingAuthEvents_loop env evs cache1 s1)"

definition checkForMissingAuthEvents ::
  "'w env \<Rightarrow> headered_event \<Rightarrow> (string \<rightharpoonup> int) \<Rightarrow> 'w st \<Rightarrow> error option \<times> (string \<rightharpoonup> int) \<times> 'w st" where
  "checkForMissingAuthEvents env event cache s =
     (let authEventIDs = authEventIDs (Unwrap event)
      in if length authEventIDs = 0 then (None, cache, s)
         else (case perform (\<lambda>w. EventNIDs env w authEventIDs) (EventNIDsCall authEventIDs) s of
                 (Inl err, s1) \<Rightarrow> (Some (Wrapped ''r.DB.EventNIDs'' err), cache, s1)
               | (Inr knownAuthEventNIDs, s1) \<Rightarrow>
                   (let cache1 = cache ++ knownAuthEventNIDs;
                        missingAuthEventIDs =
                          filter (\<lambda>authEventID. knownAuthEventNIDs authEventID = None) authEventIDs
                    in if length missingAuthEventIDs > 0
                       then (case perform
                                    (\<lambda>w. QueryEventAuthFromFederation env w
                                            (roomID (Unwrap event)) (eventID (Unwrap event)))
                                    (QueryEventAuthFromFederationCall
                                       (roomID (Unwrap event)) (eventID (Unwrap event))) s1 of
                               (Inl err, s2) \<Rightarrow>
                                 (Some (Wrapped ''r.FSAPI.QueryEventAuthFromFederation'' err),
                                  cache1, s2)
                             | (Inr resEvents, s2) \<Rightarrow>
                                 checkForMissingAuthEvents_loop env
                                   (ReverseTopologicalOrdering env resEvents
                                      TopologicalOrderByAuthEvents)
                                   cache1 s2)
                       else (None, cache1, s1))))"

definition checkForMissingPrevEvents ::
  "'w env \<Rightarrow> input_room_event \<Rightarrow> 'w st \<Rightarrow> error option \<times> 'w st" where
  "checkForMissingPrevEvents env input s = (None, s)"

section \<open>State before the event\<close>

text \<open>
  \<^verbatim>\<open>calculateAndSetState\<close> writes through the pointer \<^verbatim>\<open>stateAtEvent\<close>: the
  model returns the error, the updated \<open>state_at_event\<close> and the state.
\<close>

definition calculateAndSetState ::
  "'w env \<Rightarrow> input_room_event \<Rightarrow> room_info \<Rightarrow> state_at_event \<Rightarrow> event \<Rightarrow> bool \<Rightarrow> 'w st
     \<Rightarrow> error option \<times> state_at_event \<times> 'w st" where
  "calculateAndSetState env input roomInfo stateAtEvent0 event isRejected s =
     (case (if HasState input \<and> \<not> isRejected
            then (let sae1 = stateAtEvent0\<lparr>Overwrite := True\<rparr>
                  in case perform (\<lambda>w. GetMembershipEventNIDsForRoom env w (RoomNID roomInfo) True True)
                            (GetMembershipEventNIDsForRoomCall (RoomNID roomInfo) True True) s of
                       (joined, s1) \<Rightarrow>
                         (let sae2 = (case joined of
                                        Inr joinEventNIDs \<Rightarrow>
                                          sae1\<lparr>Overwrite := (length joinEventNIDs = 0)\<rparr>
                                      | Inl _ \<Rightarrow> sae1)
                          in case perform (\<lambda>w. StateEntriesForEventIDs env w (StateEventIDs input))
                                    (StateEntriesForEventIDsCall (StateEventIDs input)) s1 of
                               (Inl err, s2) \<Rightarrow>
                                 (Some (Wrapped ''r.DB.StateEntriesForEventIDs'' err), sae2, s2)
                             | (Inr entries, s2) \<Rightarrow>
                                 (let entries1 = DeduplicateStateEntries env entries
                                  in case perform (\<lambda>w. AddState env w (RoomNID roomInfo) [] entries1)
                                            (AddStateCall (RoomNID roomInfo) [] entries1) s2 of
                                       ((nid, Some err), s3) \<Rightarrow>
                                         (Some (Wrapped ''r.DB.AddState'' err),
                                          sae2\<lparr>BeforeStateSnapshotNID := nid\<rparr>, s3)
                                     | ((nid, None), s3) \<Rightarrow>
                                         (None, sae2\<lparr>BeforeStateSnapshotNID := nid\<rparr>, s3))))
            else (let sae1 = stateAtEvent0\<lparr>Overwrite := False\<rparr>
                  in case perform (\<lambda>w. CalculateAndStoreStateBeforeEvent env w roomInfo event isRejected)
                            (CalculateAndStoreStateBeforeEventCall roomInfo event isRejected) s of
                       ((nid, Some err), s1) \<Rightarrow>
                         (Some (Wrapped ''roomState.CalculateAndStoreStateBeforeEvent'' err),
                          sae1\<lparr>BeforeStateSnapshotNID := nid\<rparr>, s1)
                     | ((nid, None), s1) \<Rightarrow> (None, sae1\<lparr>BeforeStateSnapshotNID := nid\<rparr>, s1))) of
        (Some err, sae, s1) \<Rightarrow> (Some err, sae, s1)
      | (None, sae, s1) \<Rightarrow>
          (case perform (\<lambda>w. SetState env w (EventNID sae) (BeforeStateSnapshotNID sae))
                  (SetStateCall (EventNID sae) (BeforeStateSnapshotNID sae)) s1 of
             (Some err, s2) \<Rightarrow> (Some (Wrapped ''r.DB.SetState'' err), sae, s2)
           | (None, s2) \<Rightarrow> (None, sae, s2)))"

section \<open>The ingest orchestrator\<close>

text \<open>
  \<^verbatim>\<open>processRoomEvent\<close> in parts, each a stretch of lines of the source. Lines 82 to 100:
  is the input an outlier that was already processed?
\<close>

definition alreadyProcessed :: "'w env \<Rightarrow> input_room_event \<Rightarrow> 'w st \<Rightarrow> bool \<times> 'w st" where
  "alreadyProcessed env input s =
     (let headered = Event input; event = Unwrap headered
      in if Kind input = KindOutlier
         then (case perform (\<lambda>w. EventsFromIDs env w [eventID event])
                      (EventsFromIDsCall [eventID event]) s of
                 (Inr evs, s1) \<Rightarrow>
                   (if length evs = 1
                    then (case EventIDFormat env (RoomVersion headered) of
                            Inr EventIDFormatV1 \<Rightarrow>
                              (if eventSHA256 event = eventSHA256 (evs ! 0)
                               then (True, s1) else (False, s1))
                          | Inr _ \<Rightarrow> (True, s1)
                          | Inl _ \<Rightarrow> (False, s1))
                    else (False, s1))
               | (Inl _, s1) \<Rightarrow> (False, s1))
         else (False, s))"

text \<open>
  Lines 175 to 182: when the Store reports no snapshot for the event, compute and bind
  one. An error stops the call unless the input is of kind \<open>Old\<close>. The result is the
  error to return, or the state at the event as \<^verbatim>\<open>calculateAndSetState\<close> left it.
\<close>

definition ensureStateSnapshot ::
  "'w env \<Rightarrow> input_room_event \<Rightarrow> room_info \<Rightarrow> state_at_event \<Rightarrow> event \<Rightarrow> bool \<Rightarrow> 'w st
     \<Rightarrow> (error + state_at_event) \<times> 'w st" where
  "ensureStateSnapshot env input roomInfo stateAtEvent0 event isRejected s =
     (if BeforeStateSnapshotNID stateAtEvent0 = 0
      then (case calculateAndSetState env input roomInfo stateAtEvent0 event isRejected s of
              (Some err, sae, s1) \<Rightarrow>
                (if Kind input \<noteq> KindOld
                 then (Inl (Wrapped ''r.calculateAndSetState'' err), s1)
                 else (Inr sae, s1))
            | (None, sae, s1) \<Rightarrow> (Inr sae, s1))
      else (Inr stateAtEvent0, s))"

text \<open>
  Lines 196 to 243: the dispatch on the kind of the input, then the redaction output.
\<close>

definition notifyRoomEvent ::
  "'w env \<Rightarrow> input_room_event \<Rightarrow> room_info \<Rightarrow> state_at_event \<Rightarrow> event \<Rightarrow> store_result
     \<Rightarrow> 'w st \<Rightarrow> (string \<times> error option) \<times> 'w st" where
  "notifyRoomEvent env input roomInfo sae event stored s =
     (let headered = Event input
      in case (case Kind input of
                 KindNew \<Rightarrow>
                   (case perform
                           (\<lambda>w. updateLatestEvents env w roomInfo sae event (SendAsServer input)
                                   (TransactionID input) (HasState input))
                           (UpdateLatestEventsCall roomInfo sae event (SendAsServer input)
                              (TransactionID input) (HasState input)) s of
                      (Some err, s1) \<Rightarrow> (Some (Wrapped ''r.updateLatestEvents'' err), s1)
                    | (None, s1) \<Rightarrow> (None, s1))
               | KindOld \<Rightarrow>
                   (case perform
                           (\<lambda>w. WriteOutputEvents env w (roomID event) [OutputOldRoomEvent headered])
                           (WriteOutputEventsCall (roomID event) [OutputOldRoomEvent headered]) s of
                      (Some err, s1) \<Rightarrow> (Some (Wrapped ''r.WriteOutputEvents (old)'' err), s1)
                    | (None, s1) \<Rightarrow> (None, s1))
               | KindOutlier \<Rightarrow> (None, s)) of
           (Some err, s1) \<Rightarrow> (('''', Some err), s1)
         | (None, s1) \<Rightarrow>
             (if redactedEventID stored \<noteq> ''''
              then (case perform
                           (\<lambda>w. WriteOutputEvents env w (roomID event)
                                   [OutputRedactedEvent (redactedEventID stored)
                                      (Headered (redactionEvent stored) (RoomVersion headered))])
                           (WriteOutputEventsCall (roomID event)
                              [OutputRedactedEvent (redactedEventID stored)
                                 (Headered (redactionEvent stored) (RoomVersion headered))]) s1 of
                      (Some err, s2) \<Rightarrow>
                        (('''', Some (Wrapped ''r.WriteOutputEvents (redactions)'' err)), s2)
                    | (None, s2) \<Rightarrow> ((eventID event, None), s2))
              else ((eventID event, None), s1)))"

text \<open>
  Lines 145 to 152: the event is redacted when it is not rejected and storing it reported
  the event itself as the redacted one.
\<close>

definition redactIfTarget :: "'w env \<Rightarrow> bool \<Rightarrow> store_result \<Rightarrow> event \<Rightarrow> error + event" where
  "redactIfTarget env isRejected stored event =
     (if \<not> isRejected \<and> redactedEventID stored = eventID event
      then RedactEvent env (redactionEvent stored) event
      else Inr event)"

text \<open>
  Lines 145 to 244: what follows a successful \<^verbatim>\<open>r.DB.StoreEvent\<close>, whose answer is
  \<open>stored\<close>; \<open>rejectionErr\<close> and \<open>softfail\<close> are the local variables of that name
  (\<^verbatim>\<open>isRejected\<close> is true exactly when \<open>rejectionErr\<close> is not \<^verbatim>\<open>nil\<close>).
\<close>

definition processStoredEvent ::
  "'w env \<Rightarrow> input_room_event \<Rightarrow> error option \<Rightarrow> bool \<Rightarrow> store_result \<Rightarrow> 'w st
     \<Rightarrow> (string \<times> error option) \<times> 'w st" where
  "processStoredEvent env input rejectionErr softfail stored s =
     (let headered = Event input; isRejected = (rejectionErr \<noteq> None)
      in case redactIfTarget env isRejected stored (Unwrap headered) of
           Inl rerr \<Rightarrow> (('''', Some (Wrapped ''eventutil.RedactEvent'' rerr)), s)
         | Inr event \<Rightarrow>
             (if Kind input = KindOutlier then ((eventID event, None), s)
              else (case perform (\<lambda>w. RoomInfo env w (roomID event)) (RoomInfoCall (roomID event)) s of
                      (Inl err, s1) \<Rightarrow> (('''', Some (Wrapped ''r.DB.RoomInfo'' err)), s1)
                    | (Inr None, s1) \<Rightarrow>
                        (('''', Some (Errorf (''r.DB.RoomInfo missing for room '' @ roomID event))), s1)
                    | (Inr (Some roomInfo), s1) \<Rightarrow>
                        (case ensureStateSnapshot env input roomInfo (stateAtEvent stored) event
                                isRejected s1 of
                           (Inl err, s2) \<Rightarrow> (('''', Some err), s2)
                         | (Inr sae, s2) \<Rightarrow>
                             (if isRejected \<or> softfail then ((eventID event, rejectionErr), s2)
                              else notifyRoomEvent env input roomInfo sae event stored s2)))))"

text \<open>Lines 102 to 143: auth ancestors, the two authorisation checks, the store.\<close>

definition ingestRoomEvent ::
  "'w env \<Rightarrow> input_room_event \<Rightarrow> 'w st \<Rightarrow> (string \<times> error option) \<times> 'w st" where
  "ingestRoomEvent env input s =
     (let headered = Event input; event = Unwrap headered
      in case checkForMissingAuthEvents env headered Map.empty s of
           (Some err, _, s1) \<Rightarrow> (('''', Some (Wrapped ''r.checkForMissingAuthEvents'' err)), s1)
         | (None, _, s1) \<Rightarrow>
             (case perform (\<lambda>w. CheckAuthEvents env w headered (AuthEventIDs input))
                     (CheckAuthEventsCall headered (AuthEventIDs input)) s1 of
                ((authEventNIDs, rejectionErr), s2) \<Rightarrow>
                  (let isRejected = (rejectionErr \<noteq> None)
                   in case checkForMissingPrevEvents env input s2 of
                        (Some err, s3) \<Rightarrow>
                          (('''', Some (Wrapped ''r.checkForMissingPrevEvents'' err)), s3)
                      | (None, s3) \<Rightarrow>
                          (case (if Kind input = KindNew
                                 then perform (\<lambda>w. CheckForSoftFail env w headered (StateEventIDs input))
                                        (CheckForSoftFailCall headered (StateEventIDs input)) s3
                                 else ((False, None), s3)) of
                             ((softfail, _), s4) \<Rightarrow>
                               (case perform (\<lambda>w. StoreEvent env w event authEventNIDs isRejected)
                                       (StoreEventCall event authEventNIDs isRejected) s4 of
                                  (Inl err, s5) \<Rightarrow> (('''', Some (Wrapped ''r.DB.StoreEvent'' err)), s5)
                                | (Inr stored, s5) \<Rightarrow>
                                    processStoredEvent env input rejectionErr softfail stored s5)))))"

definition processRoomEvent ::
  "'w env \<Rightarrow> input_room_event \<Rightarrow> 'w st \<Rightarrow> (string \<times> error option) \<times> 'w st" where
  "processRoomEvent env input s =
     (case alreadyProcessed env input s of
        (True, s1) \<Rightarrow> ((eventID (Unwrap (Event input)), None), s1)
      | (False, s1) \<Rightarrow> ingestRoomEvent env input s1)"

section \<open>Reading the trace\<close>

text \<open>
  The calls sorted by the part of the code that makes them: the resolver of missing auth
  events, the computation of the state before the event, and the notifications.
\<close>

fun resolverCall :: "call \<Rightarrow> bool" where
  "resolverCall (EventNIDsCall ids r) = True"
| "resolverCall (QueryEventAuthFromFederationCall room ev r) = True"
| "resolverCall (StoreEventCall ev nids rejected r) = True"
| "resolverCall c = False"

fun stateCall :: "call \<Rightarrow> bool" where
  "stateCall (GetMembershipEventNIDsForRoomCall room joinOnly localOnly r) = True"
| "stateCall (StateEntriesForEventIDsCall ids r) = True"
| "stateCall (AddStateCall room blocks entries r) = True"
| "stateCall (CalculateAndStoreStateBeforeEventCall info ev rejected r) = True"
| "stateCall (SetStateCall nid snapshot r) = True"
| "stateCall c = False"

fun isStoreEvent :: "call \<Rightarrow> bool" where
  "isStoreEvent (StoreEventCall ev nids rejected r) = True"
| "isStoreEvent c = False"

fun isUpdateLatestEvents :: "call \<Rightarrow> bool" where
  "isUpdateLatestEvents (UpdateLatestEventsCall info sae ev server txn rewrites r) = True"
| "isUpdateLatestEvents c = False"

fun isWriteOutputEvents :: "call \<Rightarrow> bool" where
  "isWriteOutputEvents (WriteOutputEventsCall room outputs r) = True"
| "isWriteOutputEvents c = False"

fun isRoomInfo :: "call \<Rightarrow> bool" where
  "isRoomInfo (RoomInfoCall room r) = True"
| "isRoomInfo c = False"

fun isEventsFromIDs :: "call \<Rightarrow> bool" where
  "isEventsFromIDs (EventsFromIDsCall ids r) = True"
| "isEventsFromIDs c = False"

fun isCalculateAndStoreStateBeforeEvent :: "call \<Rightarrow> bool" where
  "isCalculateAndStoreStateBeforeEvent (CalculateAndStoreStateBeforeEventCall info ev rejected r) = True"
| "isCalculateAndStoreStateBeforeEvent c = False"

text \<open>The calls made before the declared-auth check, and those made after the store.\<close>

definition beforeAuthCall :: "call \<Rightarrow> bool" where
  "beforeAuthCall c = (isEventsFromIDs c \<or> resolverCall c)"

definition afterStoreCall :: "call \<Rightarrow> bool" where
  "afterStoreCall c =
     (isRoomInfo c \<or> stateCall c \<or> isUpdateLatestEvents c \<or> isWriteOutputEvents c)"

text \<open>The verdict of the soft-fail check, read off its entry.\<close>

fun softFailVerdict :: "call \<Rightarrow> bool" where
  "softFailVerdict (CheckForSoftFailCall h ids r) = fst r"
| "softFailVerdict c = False"

text \<open>
  The answer to the last call of \<^verbatim>\<open>r.DB.StoreEvent\<close> in a trace. The resolver stores
  auth events before the declared-auth check, and nothing is stored after the event
  itself: in the trace of a call of \<^verbatim>\<open>processRoomEvent\<close> that reached line 140, this
  is the answer for the input event.
\<close>

fun lastStoreEvent :: "call list \<Rightarrow> (error + store_result) option" where
  "lastStoreEvent [] = None"
| "lastStoreEvent (c # cs) =
     (case lastStoreEvent cs of
        Some r \<Rightarrow> Some r
      | None \<Rightarrow> (case c of StoreEventCall ev nids rejected r \<Rightarrow> Some r | _ \<Rightarrow> None))"

text \<open>Entries of the output log, and the calls that write them.\<close>

fun isOutputRedactedEvent :: "output_event \<Rightarrow> bool" where
  "isOutputRedactedEvent (OutputRedactedEvent redacted because) = True"
| "isOutputRedactedEvent out = False"

fun writesRedactedEvent :: "call \<Rightarrow> bool" where
  "writesRedactedEvent (WriteOutputEventsCall room outputs r) = list_ex isOutputRedactedEvent outputs"
| "writesRedactedEvent c = False"

text \<open>
  The successful dispatch on the kind of the input (lines 196 to 221): for \<open>New\<close>, the
  call of \<^verbatim>\<open>updateLatestEvents\<close>, which emits the \<^verbatim>\<open>NewRoomEvent\<close>; for \<open>Old\<close>,
  the output of one \<^verbatim>\<open>OldRoomEvent\<close> that carries the headered event of the input.
\<close>

fun dispatched :: "kind \<Rightarrow> headered_event \<Rightarrow> call \<Rightarrow> bool" where
  "dispatched k h (UpdateLatestEventsCall info sae ev server txn rewrites r) =
     (k = KindNew \<and> r = None)"
| "dispatched k h (WriteOutputEventsCall room outputs r) =
     (k = KindOld \<and> outputs = [OutputOldRoomEvent h] \<and> r = None)"
| "dispatched k h c = False"

text \<open>
  A call that computed the snapshot \<open>snap\<close>; a call of the state computation that
  failed.
\<close>

fun computesSnapshot :: "int \<Rightarrow> call \<Rightarrow> bool" where
  "computesSnapshot snap (AddStateCall room blocks entries r) = (r = (snap, None))"
| "computesSnapshot snap (CalculateAndStoreStateBeforeEventCall info ev rejected r) =
     (r = (snap, None))"
| "computesSnapshot snap c = False"

fun failedStateCall :: "call \<Rightarrow> bool" where
  "failedStateCall (StateEntriesForEventIDsCall ids r) = isl r"
| "failedStateCall (AddStateCall room blocks entries r) = (snd r \<noteq> None)"
| "failedStateCall (CalculateAndStoreStateBeforeEventCall info ev rejected r) = (snd r \<noteq> None)"
| "failedStateCall (SetStateCall nid snapshot r) = (r \<noteq> None)"
| "failedStateCall c = False"

text \<open>
  The call works on the event \<open>ev\<close>: it takes \<open>ev\<close> where it takes an event, and the
  room of \<open>ev\<close> where it takes a room.
\<close>

fun usesEvent :: "event \<Rightarrow> call \<Rightarrow> bool" where
  "usesEvent ev (RoomInfoCall room r) = (room = roomID ev)"
| "usesEvent ev (CalculateAndStoreStateBeforeEventCall info e rejected r) = (e = ev)"
| "usesEvent ev (UpdateLatestEventsCall info sae e server txn rewrites r) = (e = ev)"
| "usesEvent ev (WriteOutputEventsCall room outputs r) = (room = roomID ev)"
| "usesEvent ev c = True"

text \<open>
  The error with which \<^verbatim>\<open>processRoomEvent\<close> returns when a call of lines 140 to 243
  fails: the error of the call under the name of the step (lines 142, 169, 180, 207, 219 and
  238; the errors of the state computation are wrapped at lines 365, 370, 377 and 383 and
  again at line 180), and an error of its own for a room that does not exist (line 172).
  \<open>None\<close> for a call that did not fail.
\<close>

fun stepError :: "call \<Rightarrow> error option" where
  "stepError (StoreEventCall ev nids rejected r) =
     (case r of Inl err \<Rightarrow> Some (Wrapped ''r.DB.StoreEvent'' err) | Inr stored \<Rightarrow> None)"
| "stepError (RoomInfoCall room r) =
     (case r of
        Inl err \<Rightarrow> Some (Wrapped ''r.DB.RoomInfo'' err)
      | Inr None \<Rightarrow> Some (Errorf (''r.DB.RoomInfo missing for room '' @ room))
      | Inr (Some info) \<Rightarrow> None)"
| "stepError (StateEntriesForEventIDsCall ids r) =
     (case r of
        Inl err \<Rightarrow>
          Some (Wrapped ''r.calculateAndSetState'' (Wrapped ''r.DB.StateEntriesForEventIDs'' err))
      | Inr entries \<Rightarrow> None)"
| "stepError (AddStateCall room blocks entries r) =
     (case snd r of
        Some err \<Rightarrow> Some (Wrapped ''r.calculateAndSetState'' (Wrapped ''r.DB.AddState'' err))
      | None \<Rightarrow> None)"
| "stepError (CalculateAndStoreStateBeforeEventCall info ev rejected r) =
     (case snd r of
        Some err \<Rightarrow>
          Some (Wrapped ''r.calculateAndSetState''
                  (Wrapped ''roomState.CalculateAndStoreStateBeforeEvent'' err))
      | None \<Rightarrow> None)"
| "stepError (SetStateCall nid snapshot r) =
     (case r of
        Some err \<Rightarrow> Some (Wrapped ''r.calculateAndSetState'' (Wrapped ''r.DB.SetState'' err))
      | None \<Rightarrow> None)"
| "stepError (UpdateLatestEventsCall info sae ev server txn rewrites r) =
     (case r of Some err \<Rightarrow> Some (Wrapped ''r.updateLatestEvents'' err) | None \<Rightarrow> None)"
| "stepError (WriteOutputEventsCall room outputs r) =
     (case r of
        Some err \<Rightarrow>
          Some (Wrapped (if list_ex isOutputRedactedEvent outputs
                         then ''r.WriteOutputEvents (redactions)''
                         else ''r.WriteOutputEvents (old)'') err)
      | None \<Rightarrow> None)"
| "stepError c = None"

section \<open>A small concrete environment\<close>

text \<open>
  A store that holds the events in the order they were stored, the numeric ID of an event
  being its position, and the membership events of the joined local users; the
  membership query fails while the flag \<open>membershipDown\<close> is set. Every other
  collaborator gives a fixed answer; the redaction strips the content of the event, and is
  refused when the redaction event is missing or is not of the type \<^verbatim>\<open>m.room.redaction\<close>.
  The examples below change one collaborator at a time.
\<close>

record toy_store =
  storedEvents :: "event list"
  joinedLocal :: "int list"
  membershipDown :: bool

definition toyStore :: "event list \<Rightarrow> toy_store" where
  "toyStore evs = \<lparr>storedEvents = evs, joinedLocal = [], membershipDown = False\<rparr>"

fun nidFrom :: "int \<Rightarrow> event list \<Rightarrow> string \<Rightarrow> int option" where
  "nidFrom n [] k = None"
| "nidFrom n (e # es) k = (if eventID e = k then Some n else nidFrom (n + 1) es k)"

definition nidsOf :: "event list \<Rightarrow> string list \<Rightarrow> (string \<rightharpoonup> int)" where
  "nidsOf evs ids k = (if k \<in> set ids then nidFrom 1 evs k else None)"

definition toyStoreEvent ::
  "event option \<Rightarrow> string \<Rightarrow> toy_store \<Rightarrow> event \<Rightarrow> int list \<Rightarrow> bool
     \<Rightarrow> (error + store_result) \<times> toy_store" where
  "toyStoreEvent redaction redacted w ev nids rejected =
     (let evs = (if nidFrom 1 (storedEvents w) (eventID ev) = None
                 then storedEvents w @ [ev] else storedEvents w);
          nid = (case nidFrom 1 evs (eventID ev) of Some n \<Rightarrow> n | None \<Rightarrow> 0)
      in (Inr \<lparr>storedNID = nid,
               stateAtEvent = \<lparr>Overwrite = False, BeforeStateSnapshotNID = 0, EventNID = nid\<rparr>,
               redactionEvent = redaction, redactedEventID = redacted\<rparr>,
          w\<lparr>storedEvents := evs\<rparr>))"

definition toyEnv :: "toy_store env" where
  "toyEnv =
     \<lparr>EventIDFormat = (\<lambda>v. if v = ''1'' \<or> v = ''2'' then Inr EventIDFormatV1
                            else if v = ''3'' then Inr EventIDFormatV2
                            else if v = ''4'' then Inr EventIDFormatV3
                            else Inl (Errorf ''unsupported room version'')),
      ReverseTopologicalOrdering = (\<lambda>evs order. evs),
      RedactEvent =
        (\<lambda>redaction ev.
           case redaction of
             None \<Rightarrow> Inl (Errorf ''RedactEvent: no redaction event'')
           | Some r \<Rightarrow>
               if eventType r = ''m.room.redaction'' then Inr (ev\<lparr>content := ''''\<rparr>)
               else Inl (Errorf ''RedactEvent: redactionEvent is not a redaction event'')),
      DeduplicateStateEntries = remdups,
      EventsFromIDs = (\<lambda>w ids. (Inr (filter (\<lambda>e. eventID e \<in> set ids) (storedEvents w)), w)),
      EventNIDs = (\<lambda>w ids. (Inr (nidsOf (storedEvents w) ids), w)),
      StoreEvent = toyStoreEvent None '''',
      RoomInfo = (\<lambda>w room. (Inr (Some \<lparr>RoomNID = 1, infoRoomVersion = ''4''\<rparr>), w)),
      StateEntriesForEventIDs = (\<lambda>w ids. (Inr [], w)),
      AddState = (\<lambda>w room blocks entries. ((7, None), w)),
      SetState = (\<lambda>w nid snapshot. (None, w)),
      GetMembershipEventNIDsForRoom =
        (\<lambda>w room joinOnly localOnly.
           (if membershipDown w then Inl (Errorf ''membership table unavailable'')
            else Inr (joinedLocal w), w)),
      QueryEventAuthFromFederation = (\<lambda>w room ev. (Inr [], w)),
      CheckAuthEvents =
        (\<lambda>w h ids. ((map (\<lambda>k. case nidFrom 1 (storedEvents w) k of Some n \<Rightarrow> n | None \<Rightarrow> 0)
                         (authEventIDs (Unwrap h)), None), w)),
      CheckForSoftFail = (\<lambda>w h ids. ((False, None), w)),
      CalculateAndStoreStateBeforeEvent = (\<lambda>w info ev rejected. ((8, None), w)),
      updateLatestEvents = (\<lambda>w info sae ev server txn rewrites. (None, w)),
      WriteOutputEvents = (\<lambda>w room outputs. (None, w))\<rparr>"

definition mkEvent :: "string \<Rightarrow> string list \<Rightarrow> event" where
  "mkEvent k auth =
     \<lparr>eventID = k, roomID = ''!r'', eventType = ''m.room.message'', sender = ''@u:h'',
      authEventIDs = auth, eventSHA256 = [1], content = ''hi''\<rparr>"

definition mkHeadered :: "string \<Rightarrow> event \<Rightarrow> headered_event" where
  "mkHeadered v ev = \<lparr>Unwrap = ev, RoomVersion = v\<rparr>"

definition mkInput :: "kind \<Rightarrow> string \<Rightarrow> event \<Rightarrow> input_room_event" where
  "mkInput k v ev =
     \<lparr>Kind = k, Event = mkHeadered v ev, AuthEventIDs = authEventIDs ev, StateEventIDs = [],
      HasState = False, SendAsServer = '''', TransactionID = None\<rparr>"

text \<open>
  A peer that answers the auth query for \<open>E\<close> with the single event \<open>B\<close>, whose own
  auth event \<open>P\<close> nobody has.
\<close>

definition incompleteChainEnv :: "toy_store env" where
  "incompleteChainEnv =
     toyEnv\<lparr>QueryEventAuthFromFederation := (\<lambda>w room ev. (Inr [mkEvent ''B'' [''P'']], w))\<rparr>"

text \<open>
  The call stopped with an error of one of the given steps: the result is the empty
  string and an error wrapped with the name of the step (or, for the step
  \<^verbatim>\<open>r.DB.RoomInfo\<close>, the error "r.DB.RoomInfo missing for room ...").
\<close>

definition abortedWith :: "string list \<Rightarrow> string \<times> error option \<Rightarrow> bool" where
  "abortedWith steps res =
     (fst res = '''' \<and>
      (case snd res of
         None \<Rightarrow> False
       | Some (Errorf msg) \<Rightarrow>
           ''r.DB.RoomInfo'' \<in> set steps \<and> take 31 msg = ''r.DB.RoomInfo missing for room ''
       | Some (Wrapped step err) \<Rightarrow> step \<in> set steps))"

text \<open>An environment whose declared-auth check rejects every event.\<close>

definition rejectingEnv :: "toy_store env" where
  "rejectingEnv =
     toyEnv\<lparr>CheckAuthEvents := (\<lambda>w h ids. (([], Some (Errorf ''sender is not in the room'')), w))\<rparr>"

fun isCheckForSoftFail :: "call \<Rightarrow> bool" where
  "isCheckForSoftFail (CheckForSoftFailCall h ids r) = True"
| "isCheckForSoftFail c = False"

text \<open>An environment whose soft-fail check fails every event.\<close>

definition softFailingEnv :: "toy_store env" where
  "softFailingEnv = toyEnv\<lparr>CheckForSoftFail := (\<lambda>w h ids. ((True, None), w))\<rparr>"

text \<open>An environment in which the state before an event cannot be computed.\<close>

definition stateFailingEnv :: "toy_store env" where
  "stateFailingEnv =
     toyEnv\<lparr>CalculateAndStoreStateBeforeEvent :=
              (\<lambda>w info ev rejected. ((0, Some (Errorf ''no state for the prev events'')), w))\<rparr>"

text \<open>
  A store that holds a redaction \<open>R\<close> of the event \<open>E\<close>: storing \<open>E\<close> reports the
  pairing.
\<close>

definition redactionR :: event where
  "redactionR = (mkEvent ''R'' [])\<lparr>eventType := ''m.room.redaction''\<rparr>"

definition redactingEnv :: "toy_store env" where
  "redactingEnv = toyEnv\<lparr>StoreEvent := toyStoreEvent (Some redactionR) ''E''\<rparr>"

definition redactedE :: event where
  "redactedE = (mkEvent ''E'' [])\<lparr>content := ''''\<rparr>"

definition storedE :: store_result where
  "storedE =
     \<lparr>storedNID = 1,
      stateAtEvent = \<lparr>Overwrite = False, BeforeStateSnapshotNID = 0, EventNID = 1\<rparr>,
      redactionEvent = Some redactionR, redactedEventID = ''E''\<rparr>"

text \<open>The same store, behind a declared-auth check that rejects every event.\<close>

definition rejectingRedactingEnv :: "toy_store env" where
  "rejectingRedactingEnv =
     redactingEnv\<lparr>CheckAuthEvents :=
                    (\<lambda>w h ids. (([], Some (Errorf ''sender is not in the room'')), w))\<rparr>"

text \<open>
  An input that carries the state at the event, the state at the event as the store
  reports it for a new event, and the room.
\<close>

definition statefulInput :: input_room_event where
  "statefulInput = (mkInput KindNew ''4'' (mkEvent ''E'' []))\<lparr>HasState := True\<rparr>"

definition unboundState :: state_at_event where
  "unboundState = \<lparr>Overwrite = False, BeforeStateSnapshotNID = 0, EventNID = 1\<rparr>"

definition theRoom :: room_info where
  "theRoom = \<lparr>RoomNID = 1, infoRoomVersion = ''4''\<rparr>"

text \<open>The event \<open>E\<close> with another reference hash.\<close>

definition otherE :: event where
  "otherE = (mkEvent ''E'' [])\<lparr>eventSHA256 := [2]\<rparr>"

text \<open>
  The environment that differs from \<open>env\<close> in one thing: its soft-fail check returns
  the same verdict and never an error. The entry of a soft-fail check with its error
  removed, and a state with its trace rewritten so.
\<close>

definition withoutSoftFailError :: "'w env \<Rightarrow> 'w env" where
  "withoutSoftFailError env =
     env\<lparr>CheckForSoftFail :=
           (\<lambda>w h ids. case CheckForSoftFail env w h ids of
                         ((softfail, err), w1) \<Rightarrow> ((softfail, None), w1))\<rparr>"

fun forgetSoftFailError :: "call \<Rightarrow> call" where
  "forgetSoftFailError (CheckForSoftFailCall h ids r) = CheckForSoftFailCall h ids (fst r, None)"
| "forgetSoftFailError c = c"

definition forgetErrors :: "'w st \<Rightarrow> 'w st" where
  "forgetErrors s = \<lparr>world = world s, trace = map forgetSoftFailError (trace s)\<rparr>"

text \<open>An environment whose soft-fail check fails with an error, and no verdict.\<close>

definition softFailErrorEnv :: "toy_store env" where
  "softFailErrorEnv =
     toyEnv\<lparr>CheckForSoftFail :=
              (\<lambda>w h ids. ((False, Some (Errorf ''state events are missing'')), w))\<rparr>"

text \<open>
  A soft-failing environment in which the room of the event does not exist.
\<close>

definition roomlessSoftFailingEnv :: "toy_store env" where
  "roomlessSoftFailingEnv = softFailingEnv\<lparr>RoomInfo := (\<lambda>w room. (Inr None, w))\<rparr>"

text \<open>
  The store that pairs \<open>E\<close> with its redaction, in an environment in which the forward
  extremities cannot be updated.
\<close>

definition staleLatestEnv :: "toy_store env" where
  "staleLatestEnv =
     redactingEnv\<lparr>updateLatestEvents :=
                    (\<lambda>w info sae ev server txn rewrites.
                       (Some (Errorf ''latest events are locked''), w))\<rparr>"

section \<open>The resolver: which calls it makes\<close>

lemma perform_trace:
  "perform f entry s = (r, s1) \<Longrightarrow> trace s1 = trace s @ [entry r] \<and> (r, world s1) = f (world s)"
  by (auto simp: perform_def split: prod.splits)

lemma checkForMissingAuthEvents_body_calls:
  "checkForMissingAuthEvents_body env ev cache s = (r, cache1, s1) \<Longrightarrow>
     \<exists>cs. trace s1 = trace s @ cs \<and> list_all resolverCall cs"
  by (auto simp: checkForMissingAuthEvents_body_def perform_def Let_def
           split: prod.splits sum.splits option.splits if_splits)

lemma checkForMissingAuthEvents_loop_calls:
  "checkForMissingAuthEvents_loop env evs cache s = (r, cache1, s1) \<Longrightarrow>
     \<exists>cs. trace s1 = trace s @ cs \<and> list_all resolverCall cs"
proof (induction evs arbitrary: cache s)
  case Nil
  then show ?case by simp
next
  case (Cons ev evs)
  obtain r0 c0 s0 where b: "checkForMissingAuthEvents_body env ev cache s = (r0, c0, s0)"
    by (cases "checkForMissingAuthEvents_body env ev cache s") auto
  from checkForMissingAuthEvents_body_calls [OF b]
  obtain cs0 where cs0: "trace s0 = trace s @ cs0" "list_all resolverCall cs0" by blast
  show ?case
  proof (cases r0)
    case None
    with Cons.prems b have "checkForMissingAuthEvents_loop env evs c0 s0 = (r, cache1, s1)"
      by simp
    from Cons.IH [OF this] obtain cs where "trace s1 = trace s0 @ cs" "list_all resolverCall cs"
      by blast
    with cs0 have "trace s1 = trace s @ (cs0 @ cs) \<and> list_all resolverCall (cs0 @ cs)" by simp
    then show ?thesis by blast
  next
    case (Some e)
    with Cons.prems b have "s1 = s0" by simp
    with cs0 show ?thesis by blast
  qed
qed

lemma checkForMissingAuthEvents_calls:
  "checkForMissingAuthEvents env h cache s = (r, cache1, s1) \<Longrightarrow>
     \<exists>cs. trace s1 = trace s @ cs \<and> list_all resolverCall cs"
  by (auto simp: checkForMissingAuthEvents_def perform_def Let_def
           split: prod.splits sum.splits option.splits if_splits
           dest!: checkForMissingAuthEvents_loop_calls)

text \<open>
  The length test of lines 316 to 318 compares two lists of the same length: the error
  "missing auth event NIDs" is never returned, by any of the three functions.
\<close>

lemma checkForMissingAuthEvents_body_never_missing:
  "fst (checkForMissingAuthEvents_body env ev cache s) \<noteq> Some (Errorf msg)"
  by (auto simp: checkForMissingAuthEvents_body_def perform_def Let_def
           split: prod.splits sum.splits option.splits if_splits)

lemma checkForMissingAuthEvents_loop_never_missing:
  "fst (checkForMissingAuthEvents_loop env evs cache s) \<noteq> Some (Errorf msg)"
proof (induction evs arbitrary: cache s)
  case Nil
  then show ?case by simp
next
  case (Cons ev evs)
  then show ?case
    using checkForMissingAuthEvents_body_never_missing [of env ev cache s msg]
    by (auto split: prod.splits option.splits)
qed

lemma checkForMissingAuthEvents_never_missing:
  "fst (checkForMissingAuthEvents env h cache s) \<noteq> Some (Errorf msg)"
  by (simp add: checkForMissingAuthEvents_def perform_def Let_def
        checkForMissingAuthEvents_loop_never_missing
      split: prod.splits sum.splits option.splits)

text \<open>
  Claim C1. During missing-ancestor resolution, an event returned by the federation query
  whose auth ancestors cannot all be resolved, after the cache and the Store were
  consulted, must make \<^verbatim>\<open>checkForMissingAuthEvents\<close> abort with a "missing auth event
  NIDs" error and must not be persisted. The code does not do that: the event \<open>E\<close> has the
  auth event \<open>B\<close>, the store is empty, the peer returns \<open>B\<close> alone, and the auth event
  \<open>P\<close> of \<open>B\<close> is unknown to the cache and to the Store. The resolver returns
  \<^verbatim>\<open>nil\<close> and has stored \<open>B\<close>, with the numeric ID 0 standing for \<open>P\<close>.
\<close>

theorem checkForMissingAuthEvents_stores_incomplete_chain:
  "case checkForMissingAuthEvents incompleteChainEnv (mkHeadered ''4'' (mkEvent ''E'' [''B'']))
          Map.empty (fresh (toyStore [])) of
     (err, cache, s) \<Rightarrow>
       err = None \<and> cache ''P'' = None \<and> storedEvents (world s) = [mkEvent ''B'' [''P'']] \<and>
       filter isStoreEvent (trace s) =
         [StoreEventCall (mkEvent ''B'' [''P'']) [0] False
            (Inr \<lparr>storedNID = 1,
                   stateAtEvent =
                     \<lparr>Overwrite = False, BeforeStateSnapshotNID = 0, EventNID = 1\<rparr>,
                   redactionEvent = None, redactedEventID = ''''\<rparr>)]"
  by (simp add: checkForMissingAuthEvents_def checkForMissingAuthEvents_body_def cacheLookup_def
        perform_def incompleteChainEnv_def toyEnv_def toyStoreEvent_def toyStore_def
        mkHeadered_def mkEvent_def fresh_def Let_def map_add_def nidsOf_def)

text \<open>
  Claim C10. For an event whose list of auth event IDs is empty,
  \<^verbatim>\<open>checkForMissingAuthEvents\<close> returns \<^verbatim>\<open>nil\<close> and calls neither the Store nor
  the federation: the state, trace included, is the one it started from. For an event
  all of whose auth event IDs the Store knows, the only call is the one lookup
  \<^verbatim>\<open>r.DB.EventNIDs\<close>: no federation query, no event persisted, and the result is
  \<^verbatim>\<open>nil\<close>.
\<close>

theorem checkForMissingAuthEvents_nothing_missing:
  "(authEventIDs (Unwrap event) = [] \<longrightarrow>
      checkForMissingAuthEvents env event cache s = (None, cache, s)) \<and>
   (authEventIDs (Unwrap event) \<noteq> [] \<longrightarrow>
    EventNIDs env (world s) (authEventIDs (Unwrap event)) = (Inr known, w1) \<longrightarrow>
    (\<forall>k \<in> set (authEventIDs (Unwrap event)). known k \<noteq> None) \<longrightarrow>
      checkForMissingAuthEvents env event cache s =
        (None, cache ++ known,
         \<lparr>world = w1,
          trace = trace s @ [EventNIDsCall (authEventIDs (Unwrap event)) (Inr known)]\<rparr>))"
  by (auto simp: checkForMissingAuthEvents_def perform_def Let_def filter_empty_conv)

theorem checkForMissingAuthEvents_nothing_missing_witness:
  "authEventIDs (Unwrap (mkHeadered ''4'' (mkEvent ''E'' []))) = [] \<and>
   checkForMissingAuthEvents toyEnv (mkHeadered ''4'' (mkEvent ''E'' [])) Map.empty
       (fresh (toyStore [])) =
     (None, Map.empty, fresh (toyStore [])) \<and>
   nidsOf [mkEvent ''A'' []] [''A''] ''A'' = Some 1 \<and>
   snd (snd (checkForMissingAuthEvents toyEnv (mkHeadered ''4'' (mkEvent ''E'' [''A'']))
               Map.empty (fresh (toyStore [mkEvent ''A'' []])))) =
     \<lparr>world = toyStore [mkEvent ''A'' []],
      trace = [EventNIDsCall [''A''] (Inr (nidsOf [mkEvent ''A'' []] [''A'']))]\<rparr>"
proof -
  let ?known = "nidsOf [mkEvent ''A'' []] [''A'']"
  let ?hE = "mkHeadered ''4'' (mkEvent ''E'' [])"
  let ?hA = "mkHeadered ''4'' (mkEvent ''E'' [''A''])"
  let ?s = "fresh (toyStore [mkEvent ''A'' []])"
  have e0: "authEventIDs (Unwrap ?hE) = []"
    by (simp add: mkHeadered_def mkEvent_def)
  have a0: "authEventIDs (Unwrap ?hA) = [''A'']"
    by (simp add: mkHeadered_def mkEvent_def)
  have a1: "EventNIDs toyEnv (world ?s) [''A''] = (Inr ?known, toyStore [mkEvent ''A'' []])"
    by (simp add: toyEnv_def fresh_def toyStore_def)
  have a2: "?known ''A'' = Some 1"
    by (simp add: mkEvent_def nidsOf_def)
  have a3: "\<forall>k \<in> set (authEventIDs (Unwrap ?hA)). ?known k \<noteq> None"
    using a2 by (simp add: a0)
  have r1: "checkForMissingAuthEvents toyEnv ?hE Map.empty (fresh (toyStore [])) =
      (None, Map.empty, fresh (toyStore []))"
    using checkForMissingAuthEvents_nothing_missing
            [where event = ?hE and env = toyEnv and cache = Map.empty
               and s = "fresh (toyStore [])"] e0
    by simp
  have r2: "checkForMissingAuthEvents toyEnv ?hA Map.empty ?s =
      (None, Map.empty ++ ?known,
       \<lparr>world = toyStore [mkEvent ''A'' []],
        trace = trace ?s @ [EventNIDsCall (authEventIDs (Unwrap ?hA)) (Inr ?known)]\<rparr>)"
    using checkForMissingAuthEvents_nothing_missing
            [where event = ?hA and env = toyEnv and cache = Map.empty and s = ?s
               and known = ?known and ?w1.0 = "toyStore [mkEvent ''A'' []]"]
          a1 a3
    by (simp only: a0 list.distinct simp_thms)
  have t: "trace ?s = []" by (simp add: fresh_def)
  show ?thesis
    by (simp only: e0 r1 r2 a0 a2 t snd_conv append_Nil simp_thms)
qed

section \<open>The shape of a run\<close>

lemma afterStoreCall_simps [simp]:
  "afterStoreCall (RoomInfoCall room r1)"
  "afterStoreCall (UpdateLatestEventsCall info sae ev server txn rewrites r2)"
  "afterStoreCall (WriteOutputEventsCall room outputs r3)"
  "\<not> afterStoreCall (StoreEventCall ev nids rejected r4)"
  "\<not> afterStoreCall (CheckAuthEventsCall h ids r5)"
  "\<not> afterStoreCall (CheckForSoftFailCall h ids r6)"
  "\<not> afterStoreCall (EventsFromIDsCall ids r7)"
  "\<not> afterStoreCall (EventNIDsCall ids r8)"
  "\<not> afterStoreCall (QueryEventAuthFromFederationCall room e r9)"
  by (simp_all add: afterStoreCall_def)

lemma beforeAuthCall_simps [simp]:
  "beforeAuthCall (EventsFromIDsCall ids r7)"
  "beforeAuthCall (EventNIDsCall ids r8)"
  "beforeAuthCall (QueryEventAuthFromFederationCall room e r9)"
  "beforeAuthCall (StoreEventCall ev nids rejected r4)"
  "\<not> beforeAuthCall (CheckAuthEventsCall h ids r5)"
  "\<not> beforeAuthCall (CheckForSoftFailCall h ids r6)"
  "\<not> beforeAuthCall (RoomInfoCall room r1)"
  "\<not> beforeAuthCall (UpdateLatestEventsCall info sae ev server txn rewrites r2)"
  "\<not> beforeAuthCall (WriteOutputEventsCall room outputs r3)"
  "\<not> beforeAuthCall (SetStateCall nid snapshot r10)"
  "\<not> beforeAuthCall (AddStateCall rn blocks entries r11)"
  "\<not> beforeAuthCall (CalculateAndStoreStateBeforeEventCall info ev rejected r12)"
  by (simp_all add: beforeAuthCall_def)

lemma calculateAndSetState_calls:
  "calculateAndSetState env input roomInfo sae0 event isRejected s = (err, sae, s1) \<Longrightarrow>
     \<exists>cs. trace s1 = trace s @ cs \<and> list_all stateCall cs"
  by (auto simp: calculateAndSetState_def perform_def Let_def
           split: prod.splits sum.splits option.splits if_splits)

lemma list_all_stateCall_afterStore: "list_all stateCall cs \<Longrightarrow> list_all afterStoreCall cs"
  by (induction cs) (auto simp: afterStoreCall_def)

lemma list_all_resolverCall_beforeAuth: "list_all resolverCall cs \<Longrightarrow> list_all beforeAuthCall cs"
  by (induction cs) (auto simp: beforeAuthCall_def)

lemma ensureStateSnapshot_calls:
  "ensureStateSnapshot env input roomInfo sae0 event isRejected s = (r, s1) \<Longrightarrow>
     \<exists>cs. trace s1 = trace s @ cs \<and> list_all afterStoreCall cs"
  by (auto simp: ensureStateSnapshot_def split: prod.splits option.splits if_splits
           dest!: calculateAndSetState_calls intro: list_all_stateCall_afterStore)

lemma notifyRoomEvent_calls:
  "notifyRoomEvent env input roomInfo sae event stored s = (res, s1) \<Longrightarrow>
     \<exists>cs. trace s1 = trace s @ cs \<and> list_all afterStoreCall cs"
  by (auto simp: notifyRoomEvent_def perform_def Let_def
           split: prod.splits option.splits if_splits kind.splits)

lemma processStoredEvent_calls:
  "processStoredEvent env input rejectionErr softfail stored s = (res, s1) \<Longrightarrow>
     \<exists>cs. trace s1 = trace s @ cs \<and> list_all afterStoreCall cs"
  by (auto simp: processStoredEvent_def perform_def Let_def
           split: prod.splits sum.splits option.splits if_splits
           dest!: ensureStateSnapshot_calls notifyRoomEvent_calls)

lemma alreadyProcessed_calls:
  "alreadyProcessed env input s = (b, s1) \<Longrightarrow>
     \<exists>cs. trace s1 = trace s @ cs \<and> list_all beforeAuthCall cs"
  by (auto simp: alreadyProcessed_def perform_def Let_def
           split: prod.splits sum.splits if_splits event_id_format.splits)

text \<open>
  A call of \<^verbatim>\<open>ingestRoomEvent\<close> either stops in the resolver, or makes the declared-auth
  check, the soft-fail check when the kind is \<open>New\<close>, and the call of
  \<^verbatim>\<open>r.DB.StoreEvent\<close>, and goes on with \<^verbatim>\<open>processStoredEvent\<close> when that
  succeeded.
\<close>

lemma ingestRoomEvent_run:
  assumes run: "ingestRoomEvent env input s = (res, s')"
  shows "(\<exists>err cs. res = ('''', Some (Wrapped ''r.checkForMissingAuthEvents'' err)) \<and>
            trace s' = trace s @ cs \<and> list_all beforeAuthCall cs) \<or>
         (\<exists>cs nids rej b e r s5.
            list_all beforeAuthCall cs \<and>
            trace s5 = trace s @ cs @
              [CheckAuthEventsCall (Event input) (AuthEventIDs input) (nids, rej)] @
              (if Kind input = KindNew
               then [CheckForSoftFailCall (Event input) (StateEventIDs input) (b, e)] else []) @
              [StoreEventCall (Unwrap (Event input)) nids (rej \<noteq> None) r] \<and>
            (Kind input \<noteq> KindNew \<longrightarrow> \<not> b) \<and>
            (case r of
               Inl err \<Rightarrow> s' = s5 \<and> res = ('''', Some (Wrapped ''r.DB.StoreEvent'' err))
             | Inr stored \<Rightarrow> processStoredEvent env input rej b stored s5 = (res, s')))"
proof -
  obtain r0 c0 s1 where cm:
    "checkForMissingAuthEvents env (Event input) Map.empty s = (r0, c0, s1)"
    by (cases "checkForMissingAuthEvents env (Event input) Map.empty s") auto
  from checkForMissingAuthEvents_calls [OF cm] obtain cs where
    cs: "trace s1 = trace s @ cs" "list_all resolverCall cs" by blast
  have csb: "list_all beforeAuthCall cs"
    using cs(2) by (rule list_all_resolverCall_beforeAuth)
  show ?thesis
  proof (cases r0)
    case (Some err)
    with run cm have "res = ('''', Some (Wrapped ''r.checkForMissingAuthEvents'' err))" "s' = s1"
      by (simp_all add: ingestRoomEvent_def Let_def)
    with cs csb show ?thesis by blast
  next
    case None
    obtain nids rej s2 where ca:
      "perform (\<lambda>w. CheckAuthEvents env w (Event input) (AuthEventIDs input))
         (CheckAuthEventsCall (Event input) (AuthEventIDs input)) s1 = ((nids, rej), s2)"
      by (cases "perform (\<lambda>w. CheckAuthEvents env w (Event input) (AuthEventIDs input))
         (CheckAuthEventsCall (Event input) (AuthEventIDs input)) s1") auto
    from perform_trace [OF ca] have t2:
      "trace s2 = trace s1 @ [CheckAuthEventsCall (Event input) (AuthEventIDs input) (nids, rej)]"
      by simp
    obtain b e s4 where sf:
      "(if Kind input = KindNew
        then perform (\<lambda>w. CheckForSoftFail env w (Event input) (StateEventIDs input))
               (CheckForSoftFailCall (Event input) (StateEventIDs input)) s2
        else ((False, None), s2)) = ((b, e), s4)"
      by (cases "(if Kind input = KindNew
        then perform (\<lambda>w. CheckForSoftFail env w (Event input) (StateEventIDs input))
               (CheckForSoftFailCall (Event input) (StateEventIDs input)) s2
        else ((False, None), s2))") auto
    have t4: "trace s4 = trace s2 @
        (if Kind input = KindNew
         then [CheckForSoftFailCall (Event input) (StateEventIDs input) (b, e)] else [])"
      and nb: "Kind input \<noteq> KindNew \<longrightarrow> \<not> b"
      using sf by (auto split: if_splits dest: perform_trace)
    obtain r s5 where se:
      "perform (\<lambda>w. StoreEvent env w (Unwrap (Event input)) nids (rej \<noteq> None))
         (StoreEventCall (Unwrap (Event input)) nids (rej \<noteq> None)) s4 = (r, s5)"
      by (cases "perform (\<lambda>w. StoreEvent env w (Unwrap (Event input)) nids (rej \<noteq> None))
         (StoreEventCall (Unwrap (Event input)) nids (rej \<noteq> None)) s4") auto
    from perform_trace [OF se] have t5:
      "trace s5 = trace s4 @ [StoreEventCall (Unwrap (Event input)) nids (rej \<noteq> None) r]"
      by simp
    have shape: "trace s5 = trace s @ cs @
              [CheckAuthEventsCall (Event input) (AuthEventIDs input) (nids, rej)] @
              (if Kind input = KindNew
               then [CheckForSoftFailCall (Event input) (StateEventIDs input) (b, e)] else []) @
              [StoreEventCall (Unwrap (Event input)) nids (rej \<noteq> None) r]"
      using cs(1) t2 t4 t5 by simp
    have rest: "(case r of
               Inl err \<Rightarrow> s' = s5 \<and> res = ('''', Some (Wrapped ''r.DB.StoreEvent'' err))
             | Inr stored \<Rightarrow> processStoredEvent env input rej b stored s5 = (res, s'))"
      using run cm None ca sf se
      by (simp add: ingestRoomEvent_def Let_def checkForMissingPrevEvents_def split: sum.splits)
    from csb shape nb rest show ?thesis by blast
  qed
qed

lemma beforeAuthCall_not:
  "beforeAuthCall c \<Longrightarrow> \<not> softFailVerdict c \<and> \<not> afterStoreCall c \<and>
     c \<noteq> CheckAuthEventsCall h ids r"
  by (cases c) (auto simp: beforeAuthCall_def afterStoreCall_def)

lemma afterStoreCall_not:
  "afterStoreCall c \<Longrightarrow> \<not> softFailVerdict c \<and> \<not> isStoreEvent c \<and>
     c \<noteq> CheckAuthEventsCall h ids r"
  by (cases c) (auto simp: afterStoreCall_def)

lemma lastStoreEvent_append:
  "lastStoreEvent (xs @ ys) =
     (case lastStoreEvent ys of Some r \<Rightarrow> Some r | None \<Rightarrow> lastStoreEvent xs)"
  by (induction xs) (auto split: option.splits)

lemma lastStoreEvent_none: "list_all (\<lambda>c. \<not> isStoreEvent c) cs \<Longrightarrow> lastStoreEvent cs = None"
  by (induction cs) (auto split: call.splits)

lemma lastStoreEvent_afterStore: "list_all afterStoreCall cs \<Longrightarrow> lastStoreEvent cs = None"
  by (rule lastStoreEvent_none) (auto simp: list_all_iff dest: afterStoreCall_not)

text \<open>
  A call of \<^verbatim>\<open>processRoomEvent\<close> whose trace holds a declared-auth check went on to
  \<^verbatim>\<open>r.DB.StoreEvent\<close> for the input event, with the numeric IDs and the verdict of
  that check; the last store of the trace is that one, the soft-fail verdict of the trace
  is the local variable \<^verbatim>\<open>softfail\<close>, and what follows is
  \<^verbatim>\<open>processStoredEvent\<close>.
\<close>

lemma processRoomEvent_reaches_store:
  assumes run: "processRoomEvent env input (fresh w) = (res, s')"
    and auth: "CheckAuthEventsCall h ids (nids, rej) \<in> set (trace s')"
  shows "\<exists>r s5 post.
      lastStoreEvent (trace s') = Some r \<and>
      StoreEventCall (Unwrap (Event input)) nids (rej \<noteq> None) r \<in> set (trace s') \<and>
      trace s' = trace s5 @ post \<and> list_all afterStoreCall post \<and>
      \<not> list_ex afterStoreCall (trace s5) \<and>
      (list_ex softFailVerdict (trace s') \<longrightarrow> Kind input = KindNew) \<and>
      (case r of
         Inl err \<Rightarrow> post = [] \<and> res = ('''', Some (Wrapped ''r.DB.StoreEvent'' err))
       | Inr stored \<Rightarrow>
           processStoredEvent env input rej (list_ex softFailVerdict (trace s')) stored s5 =
             (res, s'))"
proof -
  obtain b0 s0 where ap: "alreadyProcessed env input (fresh w) = (b0, s0)"
    by (cases "alreadyProcessed env input (fresh w)") auto
  from alreadyProcessed_calls [OF ap] obtain cs0 where
    cs0: "trace s0 = cs0" "list_all beforeAuthCall cs0" by (auto simp: fresh_def)
  have notin0: "CheckAuthEventsCall h ids (nids, rej) \<notin> set cs0"
    using cs0(2) by (auto simp: list_all_iff dest: beforeAuthCall_not)
  have "\<not> b0"
  proof
    assume b0
    with run ap have "s' = s0" by (simp add: processRoomEvent_def)
    with auth cs0 notin0 show False by simp
  qed
  with run ap have ing: "ingestRoomEvent env input s0 = (res, s')"
    by (simp add: processRoomEvent_def)
  from ingestRoomEvent_run [OF ing] show ?thesis
  proof
    assume "\<exists>err cs. res = ('''', Some (Wrapped ''r.checkForMissingAuthEvents'' err)) \<and>
            trace s' = trace s0 @ cs \<and> list_all beforeAuthCall cs"
    then obtain cs where "trace s' = trace s0 @ cs" "list_all beforeAuthCall cs" by blast
    with auth cs0 notin0 show ?thesis
      by (auto simp: list_all_iff dest: beforeAuthCall_not)
  next
    assume "\<exists>cs nids rej b e r s5.
            list_all beforeAuthCall cs \<and>
            trace s5 = trace s0 @ cs @
              [CheckAuthEventsCall (Event input) (AuthEventIDs input) (nids, rej)] @
              (if Kind input = KindNew
               then [CheckForSoftFailCall (Event input) (StateEventIDs input) (b, e)] else []) @
              [StoreEventCall (Unwrap (Event input)) nids (rej \<noteq> None) r] \<and>
            (Kind input \<noteq> KindNew \<longrightarrow> \<not> b) \<and>
            (case r of
               Inl err \<Rightarrow> s' = s5 \<and> res = ('''', Some (Wrapped ''r.DB.StoreEvent'' err))
             | Inr stored \<Rightarrow> processStoredEvent env input rej b stored s5 = (res, s'))"
    then obtain cs nids1 rej1 b e r s5 where
      cs: "list_all beforeAuthCall cs"
      and t5: "trace s5 = trace s0 @ cs @
              [CheckAuthEventsCall (Event input) (AuthEventIDs input) (nids1, rej1)] @
              (if Kind input = KindNew
               then [CheckForSoftFailCall (Event input) (StateEventIDs input) (b, e)] else []) @
              [StoreEventCall (Unwrap (Event input)) nids1 (rej1 \<noteq> None) r]"
      and nb: "Kind input \<noteq> KindNew \<longrightarrow> \<not> b"
      and rest: "(case r of
               Inl err \<Rightarrow> s' = s5 \<and> res = ('''', Some (Wrapped ''r.DB.StoreEvent'' err))
             | Inr stored \<Rightarrow> processStoredEvent env input rej1 b stored s5 = (res, s'))"
      by blast
    obtain post where post: "trace s' = trace s5 @ post" "list_all afterStoreCall post"
      "(\<exists>err. r = Inl err) \<longrightarrow> post = []"
    proof (cases r)
      case (Inl err)
      with rest have "s' = s5" by simp
      with Inl that [of "[]"] show ?thesis by simp
    next
      case (Inr stored)
      with rest have "processStoredEvent env input rej1 b stored s5 = (res, s')" by simp
      from processStoredEvent_calls [OF this] Inr that show ?thesis by auto
    qed
    have notin: "CheckAuthEventsCall h ids (nids, rej) \<notin> set cs"
      "CheckAuthEventsCall h ids (nids, rej) \<notin> set post"
      using cs post(2) by (auto simp: list_all_iff dest: beforeAuthCall_not afterStoreCall_not)
    from auth post(1) t5 cs0(1) notin0 notin have eq: "nids1 = nids" "rej1 = rej"
      by (auto split: if_splits)
    have sfv: "list_ex softFailVerdict (trace s') = b"
      using post t5 cs0 cs nb
      by (auto simp: list_all_iff list_ex_iff dest: beforeAuthCall_not afterStoreCall_not)
    have last: "lastStoreEvent (trace s') = Some r"
      using post(1) t5 lastStoreEvent_afterStore [OF post(2)]
      by (simp add: lastStoreEvent_append)
    have mem: "StoreEventCall (Unwrap (Event input)) nids (rej \<noteq> None) r \<in> set (trace s')"
      using post(1) t5 eq by simp
    have quiet5: "\<not> list_ex afterStoreCall (trace s5)"
      using t5 cs0 cs
      by (auto simp: list_all_iff list_ex_iff dest: beforeAuthCall_not)
    have knd: "list_ex softFailVerdict (trace s') \<longrightarrow> Kind input = KindNew"
      using sfv nb by auto
    have fin: "(case r of
         Inl err \<Rightarrow> post = [] \<and> res = ('''', Some (Wrapped ''r.DB.StoreEvent'' err))
       | Inr stored \<Rightarrow>
           processStoredEvent env input rej (list_ex softFailVerdict (trace s')) stored s5 =
             (res, s'))"
      using rest post(3) eq sfv by (auto split: sum.splits)
    from last mem post(1,2) quiet5 knd fin show ?thesis by blast
  qed
qed

section \<open>Rejected and soft-failed events\<close>

lemma abortedWith_mono:
  "abortedWith xs res \<Longrightarrow> set xs \<subseteq> set ys \<Longrightarrow> abortedWith ys res"
  by (auto simp: abortedWith_def split: option.splits error.splits)

lemma stateCalls_quiet:
  "list_all stateCall cs \<Longrightarrow>
     \<not> list_ex isUpdateLatestEvents cs \<and> \<not> list_ex isWriteOutputEvents cs"
proof (induction cs)
  case Nil
  then show ?case by simp
next
  case (Cons c cs)
  then show ?case by (cases c) auto
qed

lemma ensureStateSnapshot_stateCalls:
  "ensureStateSnapshot env input roomInfo sae0 event isRejected s = (r, s1) \<Longrightarrow>
     \<exists>cs. trace s1 = trace s @ cs \<and> list_all stateCall cs"
  by (auto simp: ensureStateSnapshot_def split: prod.splits option.splits if_splits
           dest!: calculateAndSetState_calls)

lemma ensureStateSnapshot_quiet:
  "ensureStateSnapshot env input roomInfo sae0 event isRejected s = (r, s1) \<Longrightarrow>
     \<exists>cs. trace s1 = trace s @ cs \<and> \<not> list_ex isUpdateLatestEvents cs \<and>
       \<not> list_ex isWriteOutputEvents cs"
  using ensureStateSnapshot_stateCalls stateCalls_quiet by blast

lemma ensureStateSnapshot_error:
  "ensureStateSnapshot env input roomInfo sae0 event isRejected s = (Inl err, s1) \<Longrightarrow>
     \<exists>e. err = Wrapped ''r.calculateAndSetState'' e"
  by (auto simp: ensureStateSnapshot_def split: prod.splits option.splits if_splits)

lemma calculateAndSetState_stepError:
  "calculateAndSetState env input roomInfo sae0 event isRejected s = (err, sae, s1) \<Longrightarrow>
     \<exists>cs. trace s1 = trace s @ cs \<and> cs \<noteq> [] \<and> list_all stateCall cs \<and>
       stepError (last cs) = map_option (Wrapped ''r.calculateAndSetState'') err"
  by (auto simp: calculateAndSetState_def perform_def Let_def
           split: prod.splits sum.splits option.splits if_splits)

lemma ensureStateSnapshot_stepError:
  assumes e: "ensureStateSnapshot env input roomInfo sae0 event isRejected s = (r, s1)"
  shows "\<exists>cs. trace s1 = trace s @ cs \<and> list_all stateCall cs \<and>
       (case r of
          Inl err \<Rightarrow> cs \<noteq> [] \<and> stepError (last cs) = Some err
        | Inr sae \<Rightarrow> Kind input = KindOld \<or> cs = [] \<or> stepError (last cs) = None)"
proof (cases "BeforeStateSnapshotNID sae0 = 0")
  case False
  with e show ?thesis by (auto simp: ensureStateSnapshot_def)
next
  case True
  obtain err sae s2 where c:
    "calculateAndSetState env input roomInfo sae0 event isRejected s = (err, sae, s2)"
    by (cases "calculateAndSetState env input roomInfo sae0 event isRejected s") auto
  from calculateAndSetState_stepError [OF c] obtain cs where
    cs: "trace s2 = trace s @ cs" "cs \<noteq> []" "list_all stateCall cs"
      "stepError (last cs) = map_option (Wrapped ''r.calculateAndSetState'') err"
    by blast
  from e c True have s12: "s1 = s2"
    by (auto simp: ensureStateSnapshot_def split: option.splits if_splits)
  from e c True have "case r of
          Inl err' \<Rightarrow> (\<exists>e0. err = Some e0 \<and> err' = Wrapped ''r.calculateAndSetState'' e0)
        | Inr sae \<Rightarrow> Kind input = KindOld \<or> err = None"
    by (auto simp: ensureStateSnapshot_def split: option.splits if_splits sum.splits)
  with cs s12 show ?thesis by (auto split: sum.splits)
qed

lemma processStoredEvent_quiet:
  assumes "rejectionErr \<noteq> None \<or> softfail \<or> Kind input = KindOutlier"
    and "processStoredEvent env input rejectionErr softfail stored s = (res, s1)"
  shows "\<exists>cs. trace s1 = trace s @ cs \<and> \<not> list_ex isUpdateLatestEvents cs \<and>
           \<not> list_ex isWriteOutputEvents cs"
  using assms
  by (auto simp: processStoredEvent_def perform_def Let_def
           split: prod.splits sum.splits option.splits if_splits
           dest!: ensureStateSnapshot_quiet)

lemma processStoredEvent_rejected_result:
  assumes "processStoredEvent env input (Some e) softfail stored s = (res, s1)"
  shows "res = (eventID (Unwrap (Event input)), if Kind input = KindOutlier then None else Some e) \<or>
         abortedWith [''r.DB.RoomInfo'', ''r.calculateAndSetState''] res"
  using assms
  by (auto simp: processStoredEvent_def redactIfTarget_def perform_def Let_def abortedWith_def
           split: prod.splits sum.splits option.splits if_splits
           dest!: ensureStateSnapshot_error)

text \<open>
  Claim C3, as amended. For every input whose declared-auth check
  (\<^verbatim>\<open>helpers.CheckAuthEvents\<close>) returns a rejection error: \<^verbatim>\<open>processRoomEvent\<close>
  calls \<^verbatim>\<open>r.DB.StoreEvent\<close> for the event with \<^verbatim>\<open>isRejected\<close> true and the
  numeric IDs the check returned; it never calls \<^verbatim>\<open>updateLatestEvents\<close> (so no
  forward extremity changes and no \<^verbatim>\<open>NewRoomEvent\<close> is emitted) and writes no output;
  and it returns the event ID of the event together with the rejection error when the
  kind is \<open>New\<close> or \<open>Old\<close>, and together with \<^verbatim>\<open>nil\<close> when the kind is
  \<open>Outlier\<close>. The one other outcome is that it returns the empty string and the error
  of a failed \<^verbatim>\<open>r.DB.StoreEvent\<close>, \<^verbatim>\<open>r.DB.RoomInfo\<close> or
  \<^verbatim>\<open>calculateAndSetState\<close> (for the kind \<open>Old\<close> line 179 ignores the error of the
  latter, and the call goes on to return the event ID with the rejection error).
\<close>

theorem processRoomEvent_rejected:
  assumes "processRoomEvent env input (fresh w) = (res, s')"
    and "CheckAuthEventsCall h ids (nids, Some e) \<in> set (trace s')"
  shows "(\<exists>r. StoreEventCall (Unwrap (Event input)) nids True r \<in> set (trace s')) \<and>
         \<not> list_ex isUpdateLatestEvents (trace s') \<and>
         \<not> list_ex isWriteOutputEvents (trace s') \<and>
         (res = (eventID (Unwrap (Event input)),
                 if Kind input = KindOutlier then None else Some e) \<or>
          abortedWith [''r.DB.StoreEvent'', ''r.DB.RoomInfo'', ''r.calculateAndSetState''] res)"
proof -
  from processRoomEvent_reaches_store [OF assms] obtain r s5 post where
    mem: "StoreEventCall (Unwrap (Event input)) nids (Some e \<noteq> None) r \<in> set (trace s')"
    and tr: "trace s' = trace s5 @ post" "\<not> list_ex afterStoreCall (trace s5)"
    and fin: "(case r of
         Inl err \<Rightarrow> post = [] \<and> res = ('''', Some (Wrapped ''r.DB.StoreEvent'' err))
       | Inr stored \<Rightarrow>
           processStoredEvent env input (Some e) (list_ex softFailVerdict (trace s')) stored s5 =
             (res, s'))"
    by blast
  have q5: "\<not> list_ex isUpdateLatestEvents (trace s5)" "\<not> list_ex isWriteOutputEvents (trace s5)"
    using tr(2) by (auto simp: list_ex_iff afterStoreCall_def)
  have stored: "\<exists>r. StoreEventCall (Unwrap (Event input)) nids True r \<in> set (trace s')"
    using mem by auto
  have "\<not> list_ex isUpdateLatestEvents post \<and> \<not> list_ex isWriteOutputEvents post \<and>
        (res = (eventID (Unwrap (Event input)),
                 if Kind input = KindOutlier then None else Some e) \<or>
          abortedWith [''r.DB.StoreEvent'', ''r.DB.RoomInfo'', ''r.calculateAndSetState''] res)"
  proof (cases r)
    case (Inl err)
    with fin show ?thesis by (simp add: abortedWith_def)
  next
    case (Inr stored)
    with fin have p:
      "processStoredEvent env input (Some e) (list_ex softFailVerdict (trace s')) stored s5 =
         (res, s')" by simp
    from processStoredEvent_quiet [OF _ p] tr(1) have
      q: "\<not> list_ex isUpdateLatestEvents post \<and> \<not> list_ex isWriteOutputEvents post" by auto
    from processStoredEvent_rejected_result [OF p] show ?thesis
    proof
      assume "res = (eventID (Unwrap (Event input)),
                 if Kind input = KindOutlier then None else Some e)"
      with q show ?thesis by blast
    next
      assume "abortedWith [''r.DB.RoomInfo'', ''r.calculateAndSetState''] res"
      then have "abortedWith [''r.DB.StoreEvent'', ''r.DB.RoomInfo'', ''r.calculateAndSetState''] res"
        by (rule abortedWith_mono) auto
      with q show ?thesis by blast
    qed
  qed
  with stored q5 tr(1) show ?thesis by simp
qed

section \<open>Runs of the concrete environment\<close>

lemmas model_defs =
  processRoomEvent_def alreadyProcessed_def ingestRoomEvent_def processStoredEvent_def
  redactIfTarget_def ensureStateSnapshot_def notifyRoomEvent_def calculateAndSetState_def
  checkForMissingAuthEvents_def checkForMissingPrevEvents_def checkForMissingAuthEvents_body_def
  cacheLookup_def perform_def fresh_def Let_def Headered_def

lemmas toy_defs =
  toyEnv_def toyStoreEvent_def toyStore_def mkInput_def mkHeadered_def mkEvent_def nidsOf_def
  map_add_def redactionR_def

text \<open>
  Claim C3 as stated fails for an input of kind \<open>Outlier\<close>: the declared-auth check
  rejects the event, the event is stored with \<^verbatim>\<open>isRejected\<close> true, and line 164
  returns the event ID with a \<^verbatim>\<open>nil\<close> error, not with the rejection error.
\<close>

theorem processRoomEvent_rejected_outlier_returns_nil:
  "processRoomEvent rejectingEnv (mkInput KindOutlier ''4'' (mkEvent ''E'' []))
       (fresh (toyStore [])) =
     ((''E'', None),
      \<lparr>world = toyStore [mkEvent ''E'' []],
       trace =
         [EventsFromIDsCall [''E''] (Inr []),
          CheckAuthEventsCall (mkHeadered ''4'' (mkEvent ''E'' [])) []
            ([], Some (Errorf ''sender is not in the room'')),
          StoreEventCall (mkEvent ''E'' []) [] True
            (Inr \<lparr>storedNID = 1,
                   stateAtEvent = \<lparr>Overwrite = False, BeforeStateSnapshotNID = 0, EventNID = 1\<rparr>,
                   redactionEvent = None, redactedEventID = ''''\<rparr>)]\<rparr>)"
  by (simp add: model_defs toy_defs rejectingEnv_def)

lemma rejected_new_run:
  "processRoomEvent rejectingEnv (mkInput KindNew ''4'' (mkEvent ''E'' [])) (fresh (toyStore [])) =
     ((''E'', Some (Errorf ''sender is not in the room'')),
      \<lparr>world = toyStore [mkEvent ''E'' []],
       trace =
         [CheckAuthEventsCall (mkHeadered ''4'' (mkEvent ''E'' [])) []
            ([], Some (Errorf ''sender is not in the room'')),
          CheckForSoftFailCall (mkHeadered ''4'' (mkEvent ''E'' [])) [] (False, None),
          StoreEventCall (mkEvent ''E'' []) [] True
            (Inr \<lparr>storedNID = 1,
                   stateAtEvent = \<lparr>Overwrite = False, BeforeStateSnapshotNID = 0, EventNID = 1\<rparr>,
                   redactionEvent = None, redactedEventID = ''''\<rparr>),
          RoomInfoCall ''!r'' (Inr (Some \<lparr>RoomNID = 1, infoRoomVersion = ''4''\<rparr>)),
          CalculateAndStoreStateBeforeEventCall \<lparr>RoomNID = 1, infoRoomVersion = ''4''\<rparr>
            (mkEvent ''E'' []) True (8, None),
          SetStateCall 1 8 None]\<rparr>)"
  by (simp add: model_defs toy_defs rejectingEnv_def)

theorem processRoomEvent_rejected_witness:
  "CheckAuthEventsCall (mkHeadered ''4'' (mkEvent ''E'' [])) []
       ([], Some (Errorf ''sender is not in the room''))
     \<in> set (trace (snd (processRoomEvent rejectingEnv (mkInput KindNew ''4'' (mkEvent ''E'' []))
                           (fresh (toyStore []))))) \<and>
   (\<exists>r. StoreEventCall (mkEvent ''E'' []) [] True r
          \<in> set (trace (snd (processRoomEvent rejectingEnv
                                 (mkInput KindNew ''4'' (mkEvent ''E'' [])) (fresh (toyStore [])))))) \<and>
   fst (processRoomEvent rejectingEnv (mkInput KindNew ''4'' (mkEvent ''E'' []))
          (fresh (toyStore []))) =
     (''E'', Some (Errorf ''sender is not in the room''))"
proof -
  have mem: "CheckAuthEventsCall (mkHeadered ''4'' (mkEvent ''E'' [])) []
       ([], Some (Errorf ''sender is not in the room''))
     \<in> set (trace (snd (processRoomEvent rejectingEnv (mkInput KindNew ''4'' (mkEvent ''E'' []))
                           (fresh (toyStore [])))))"
    by (simp add: rejected_new_run)
  have unwrap: "Unwrap (Event (mkInput KindNew ''4'' (mkEvent ''E'' []))) = mkEvent ''E'' []"
    by (simp add: mkInput_def mkHeadered_def)
  show ?thesis
    using mem processRoomEvent_rejected [OF surjective_pairing mem]
    by (simp add: unwrap rejected_new_run)
qed

lemma not_isCheckForSoftFail:
  "beforeAuthCall c \<Longrightarrow> \<not> isCheckForSoftFail c"
  "afterStoreCall c \<Longrightarrow> \<not> isCheckForSoftFail c"
  by (cases c; auto simp: beforeAuthCall_def afterStoreCall_def)+

lemma processRoomEvent_soft_fail_check_only_new:
  assumes run: "processRoomEvent env input s = (res, s')"
    and old: "\<not> list_ex isCheckForSoftFail (trace s)"
    and sf: "list_ex isCheckForSoftFail (trace s')"
  shows "Kind input = KindNew"
proof -
  obtain b0 s0 where ap: "alreadyProcessed env input s = (b0, s0)"
    by (cases "alreadyProcessed env input s") auto
  from alreadyProcessed_calls [OF ap] obtain cs0 where
    cs0: "trace s0 = trace s @ cs0" "list_all beforeAuthCall cs0" by auto
  have n0: "\<not> list_ex isCheckForSoftFail (trace s0)"
    using cs0 old by (auto simp: list_all_iff list_ex_iff dest: not_isCheckForSoftFail)
  show ?thesis
  proof (cases b0)
    case True
    with run ap have "s' = s0" by (simp add: processRoomEvent_def)
    with sf n0 show ?thesis by simp
  next
    case False
    with run ap have ing: "ingestRoomEvent env input s0 = (res, s')"
      by (simp add: processRoomEvent_def)
    from ingestRoomEvent_run [OF ing] show ?thesis
    proof
      assume "\<exists>err cs. res = ('''', Some (Wrapped ''r.checkForMissingAuthEvents'' err)) \<and>
            trace s' = trace s0 @ cs \<and> list_all beforeAuthCall cs"
      with sf n0 show ?thesis
        by (auto simp: list_all_iff list_ex_iff dest: not_isCheckForSoftFail)
    next
      assume "\<exists>cs nids rej b e r s5.
            list_all beforeAuthCall cs \<and>
            trace s5 = trace s0 @ cs @
              [CheckAuthEventsCall (Event input) (AuthEventIDs input) (nids, rej)] @
              (if Kind input = KindNew
               then [CheckForSoftFailCall (Event input) (StateEventIDs input) (b, e)] else []) @
              [StoreEventCall (Unwrap (Event input)) nids (rej \<noteq> None) r] \<and>
            (Kind input \<noteq> KindNew \<longrightarrow> \<not> b) \<and>
            (case r of
               Inl err \<Rightarrow> s' = s5 \<and> res = ('''', Some (Wrapped ''r.DB.StoreEvent'' err))
             | Inr stored \<Rightarrow> processStoredEvent env input rej b stored s5 = (res, s'))"
      then obtain cs nids rej b e r s5 where
        cs: "list_all beforeAuthCall cs"
        and t5: "trace s5 = trace s0 @ cs @
              [CheckAuthEventsCall (Event input) (AuthEventIDs input) (nids, rej)] @
              (if Kind input = KindNew
               then [CheckForSoftFailCall (Event input) (StateEventIDs input) (b, e)] else []) @
              [StoreEventCall (Unwrap (Event input)) nids (rej \<noteq> None) r]"
        and rest: "(case r of
               Inl err \<Rightarrow> s' = s5 \<and> res = ('''', Some (Wrapped ''r.DB.StoreEvent'' err))
             | Inr stored \<Rightarrow> processStoredEvent env input rej b stored s5 = (res, s'))"
        by blast
      have "\<exists>post. trace s' = trace s5 @ post \<and> list_all afterStoreCall post"
      proof (cases r)
        case (Inl err)
        with rest show ?thesis by simp
      next
        case (Inr stored)
        with rest show ?thesis by (auto dest: processStoredEvent_calls)
      qed
      then obtain post where post: "trace s' = trace s5 @ post" "list_all afterStoreCall post"
        by blast
      show ?thesis
      proof (rule ccontr)
        assume "Kind input \<noteq> KindNew"
        with t5 post cs n0 have "\<not> list_ex isCheckForSoftFail (trace s')"
          by (auto simp: list_all_iff list_ex_iff dest: not_isCheckForSoftFail)
        with sf show False by simp
      qed
    qed
  qed
qed

lemma processStoredEvent_softfail_outcome:
  assumes p: "processStoredEvent env input None True stored s = (res, s1)"
    and k: "Kind input = KindNew"
  shows "case redactIfTarget env False stored (Unwrap (Event input)) of
           Inl rerr \<Rightarrow> res = ('''', Some (Wrapped ''eventutil.RedactEvent'' rerr)) \<and> s1 = s
         | Inr ev \<Rightarrow>
             (\<exists>cs. trace s1 = trace s @ cs \<and> cs \<noteq> [] \<and>
                (case stepError (last cs) of
                   None \<Rightarrow> res = (eventID ev, None)
                 | Some err \<Rightarrow> res = ('''', Some err)))"
proof (cases "redactIfTarget env False stored (Unwrap (Event input))")
  case (Inl rerr)
  with p show ?thesis by (simp add: processStoredEvent_def)
next
  case (Inr event)
  note rd = this
  obtain ri s2 where ri:
    "perform (\<lambda>w. RoomInfo env w (roomID event)) (RoomInfoCall (roomID event)) s = (ri, s2)"
    by (cases "perform (\<lambda>w. RoomInfo env w (roomID event)) (RoomInfoCall (roomID event)) s")
  from perform_trace [OF ri] have t2: "trace s2 = trace s @ [RoomInfoCall (roomID event) ri]"
    by simp
  have "\<exists>cs. trace s1 = trace s @ cs \<and> cs \<noteq> [] \<and>
                (case stepError (last cs) of
                   None \<Rightarrow> res = (eventID event, None)
                 | Some err \<Rightarrow> res = ('''', Some err))"
  proof (cases "\<exists>roomInfo. ri = Inr (Some roomInfo)")
    case False
    with p rd k ri have "res = ('''', stepError (RoomInfoCall (roomID event) ri)) \<and>
        stepError (RoomInfoCall (roomID event) ri) \<noteq> None \<and> s1 = s2"
      by (cases ri; cases "projr ri") (auto simp: processStoredEvent_def Let_def)
    with t2 show ?thesis by auto
  next
    case True
    then obtain roomInfo where info: "ri = Inr (Some roomInfo)" by blast
    obtain es s3 where es:
      "ensureStateSnapshot env input roomInfo (stateAtEvent stored) event False s2 = (es, s3)"
      by (cases "ensureStateSnapshot env input roomInfo (stateAtEvent stored) event False s2")
    from ensureStateSnapshot_stepError [OF es] obtain cs3 where
      t3: "trace s3 = trace s2 @ cs3"
      and o3: "(case es of
          Inl err \<Rightarrow> cs3 \<noteq> [] \<and> stepError (last cs3) = Some err
        | Inr sae \<Rightarrow> Kind input = KindOld \<or> cs3 = [] \<or> stepError (last cs3) = None)"
      by blast
    have t: "trace s3 = trace s @ (RoomInfoCall (roomID event) ri # cs3)"
      using t2 t3 by simp
    show ?thesis
    proof (cases es)
      case (Inl err)
      with p rd k ri info es have "s1 = s3" "res = ('''', Some err)"
        by (simp_all add: processStoredEvent_def)
      with t o3 Inl show ?thesis by auto
    next
      case (Inr sae)
      with p rd k ri info es have "s1 = s3" "res = (eventID event, None)"
        by (simp_all add: processStoredEvent_def)
      moreover from o3 Inr k info
      have "stepError (last (RoomInfoCall (roomID event) ri # cs3)) = None"
        by auto
      ultimately show ?thesis using t by (intro exI [of _ "RoomInfoCall (roomID event) ri # cs3"]) simp
    qed
  qed
  with rd show ?thesis by simp
qed

text \<open>
  Claim C5, as amended. The soft-fail check (\<^verbatim>\<open>helpers.CheckForSoftFail\<close>) is called
  only for an input of kind \<open>New\<close>. For an event that passes the declared-auth check (no
  rejection error) and soft-fails, \<^verbatim>\<open>processRoomEvent\<close> calls \<^verbatim>\<open>r.DB.StoreEvent\<close>
  for the event, with \<^verbatim>\<open>isRejected\<close> false; it never calls \<^verbatim>\<open>updateLatestEvents\<close>,
  so the forward extremities stay as they are and no \<^verbatim>\<open>NewRoomEvent\<close> is emitted, and
  it writes no output. What it returns is decided by the steps of lines 140 to 182. When
  \<^verbatim>\<open>r.DB.StoreEvent\<close> fails, the empty string and that error (line 142). When the
  redaction of lines 145 to 152 fails, the empty string and that error (line 149). When a
  later call fails (\<^verbatim>\<open>r.DB.RoomInfo\<close>, or a call of \<^verbatim>\<open>calculateAndSetState\<close>),
  that call is the last of the trace and the result is the empty string and the error of
  that step. Only when the last call did not fail, the event ID of the stored event (of its
  redacted form when lines 145 to 152 redacted it) with a \<^verbatim>\<open>nil\<close> error.
\<close>

theorem processRoomEvent_soft_failed:
  assumes run: "processRoomEvent env input (fresh w) = (res, s')"
  shows "(list_ex isCheckForSoftFail (trace s') \<longrightarrow> Kind input = KindNew) \<and>
         (CheckAuthEventsCall h ids (nids, None) \<in> set (trace s') \<and>
          list_ex softFailVerdict (trace s') \<longrightarrow>
            Kind input = KindNew \<and>
            (\<exists>r. StoreEventCall (Unwrap (Event input)) nids False r \<in> set (trace s')) \<and>
            \<not> list_ex isUpdateLatestEvents (trace s') \<and>
            \<not> list_ex isWriteOutputEvents (trace s') \<and>
            (case lastStoreEvent (trace s') of
               None \<Rightarrow> False
             | Some (Inl err) \<Rightarrow> res = ('''', Some (Wrapped ''r.DB.StoreEvent'' err))
             | Some (Inr stored) \<Rightarrow>
                 (case redactIfTarget env False stored (Unwrap (Event input)) of
                    Inl rerr \<Rightarrow> res = ('''', Some (Wrapped ''eventutil.RedactEvent'' rerr))
                  | Inr ev \<Rightarrow>
                      (case stepError (last (trace s')) of
                         None \<Rightarrow> res = (eventID ev, None)
                       | Some err \<Rightarrow> res = ('''', Some err)))))"
proof (intro conjI impI)
  assume "list_ex isCheckForSoftFail (trace s')"
  with processRoomEvent_soft_fail_check_only_new [OF run] show "Kind input = KindNew"
    by (simp add: fresh_def)
next
  assume hyp: "CheckAuthEventsCall h ids (nids, None) \<in> set (trace s') \<and>
          list_ex softFailVerdict (trace s')"
  then have auth: "CheckAuthEventsCall h ids (nids, None) \<in> set (trace s')"
    and sfv: "list_ex softFailVerdict (trace s')" by auto
  from processRoomEvent_reaches_store [OF run auth] obtain r s5 post where
    last: "lastStoreEvent (trace s') = Some r"
    and mem: "StoreEventCall (Unwrap (Event input)) nids (None \<noteq> (None :: error option)) r
                \<in> set (trace s')"
    and tr: "trace s' = trace s5 @ post" "\<not> list_ex afterStoreCall (trace s5)"
    and knd: "list_ex softFailVerdict (trace s') \<longrightarrow> Kind input = KindNew"
    and fin: "(case r of
         Inl err \<Rightarrow> post = [] \<and> res = ('''', Some (Wrapped ''r.DB.StoreEvent'' err))
       | Inr stored \<Rightarrow>
           processStoredEvent env input None (list_ex softFailVerdict (trace s')) stored s5 =
             (res, s'))"
    by blast
  from knd sfv show new: "Kind input = KindNew" by simp
  from mem show "\<exists>r. StoreEventCall (Unwrap (Event input)) nids False r \<in> set (trace s')"
    by auto
  have q5: "\<not> list_ex isUpdateLatestEvents (trace s5)" "\<not> list_ex isWriteOutputEvents (trace s5)"
    using tr(2) by (auto simp: list_ex_iff afterStoreCall_def)
  have both: "\<not> list_ex isUpdateLatestEvents post \<and> \<not> list_ex isWriteOutputEvents post \<and>
     (case r of
        Inl err \<Rightarrow> res = ('''', Some (Wrapped ''r.DB.StoreEvent'' err))
      | Inr stored \<Rightarrow>
          (case redactIfTarget env False stored (Unwrap (Event input)) of
             Inl rerr \<Rightarrow> res = ('''', Some (Wrapped ''eventutil.RedactEvent'' rerr))
           | Inr ev \<Rightarrow>
               (case stepError (last (trace s')) of
                  None \<Rightarrow> res = (eventID ev, None)
                | Some err \<Rightarrow> res = ('''', Some err))))"
  proof (cases r)
    case (Inl err)
    with fin show ?thesis by simp
  next
    case (Inr stored)
    with fin sfv have p: "processStoredEvent env input None True stored s5 = (res, s')" by simp
    from processStoredEvent_quiet [OF _ p] tr(1) have
      q: "\<not> list_ex isUpdateLatestEvents post \<and> \<not> list_ex isWriteOutputEvents post" by auto
    have "(case redactIfTarget env False stored (Unwrap (Event input)) of
             Inl rerr \<Rightarrow> res = ('''', Some (Wrapped ''eventutil.RedactEvent'' rerr))
           | Inr ev \<Rightarrow>
               (case stepError (last (trace s')) of
                  None \<Rightarrow> res = (eventID ev, None)
                | Some err \<Rightarrow> res = ('''', Some err)))"
      using processStoredEvent_softfail_outcome [OF p new]
      by (auto split: sum.splits)
    with q Inr show ?thesis by simp
  qed
  from both q5 tr(1) show "\<not> list_ex isUpdateLatestEvents (trace s')" by simp
  from both q5 tr(1) show "\<not> list_ex isWriteOutputEvents (trace s')" by simp
  from both last show "(case lastStoreEvent (trace s') of
               None \<Rightarrow> False
             | Some (Inl err) \<Rightarrow> res = ('''', Some (Wrapped ''r.DB.StoreEvent'' err))
             | Some (Inr stored) \<Rightarrow>
                 (case redactIfTarget env False stored (Unwrap (Event input)) of
                    Inl rerr \<Rightarrow> res = ('''', Some (Wrapped ''eventutil.RedactEvent'' rerr))
                  | Inr ev \<Rightarrow>
                      (case stepError (last (trace s')) of
                         None \<Rightarrow> res = (eventID ev, None)
                       | Some err \<Rightarrow> res = ('''', Some err))))"
    by (simp split: sum.splits)
qed

lemma soft_failed_run:
  "processRoomEvent softFailingEnv (mkInput KindNew ''4'' (mkEvent ''E'' [])) (fresh (toyStore [])) =
     ((''E'', None),
      \<lparr>world = toyStore [mkEvent ''E'' []],
       trace =
         [CheckAuthEventsCall (mkHeadered ''4'' (mkEvent ''E'' [])) [] ([], None),
          CheckForSoftFailCall (mkHeadered ''4'' (mkEvent ''E'' [])) [] (True, None),
          StoreEventCall (mkEvent ''E'' []) [] False
            (Inr \<lparr>storedNID = 1,
                   stateAtEvent = \<lparr>Overwrite = False, BeforeStateSnapshotNID = 0, EventNID = 1\<rparr>,
                   redactionEvent = None, redactedEventID = ''''\<rparr>),
          RoomInfoCall ''!r'' (Inr (Some \<lparr>RoomNID = 1, infoRoomVersion = ''4''\<rparr>)),
          CalculateAndStoreStateBeforeEventCall \<lparr>RoomNID = 1, infoRoomVersion = ''4''\<rparr>
            (mkEvent ''E'' []) False (8, None),
          SetStateCall 1 8 None]\<rparr>)"
  by (simp add: model_defs toy_defs softFailingEnv_def)

theorem processRoomEvent_soft_failed_witness:
  "list_ex softFailVerdict
     (trace (snd (processRoomEvent softFailingEnv (mkInput KindNew ''4'' (mkEvent ''E'' []))
                    (fresh (toyStore []))))) \<and>
   CheckAuthEventsCall (mkHeadered ''4'' (mkEvent ''E'' [])) [] ([], None)
     \<in> set (trace (snd (processRoomEvent softFailingEnv (mkInput KindNew ''4'' (mkEvent ''E'' []))
                           (fresh (toyStore []))))) \<and>
   \<not> list_ex isUpdateLatestEvents
       (trace (snd (processRoomEvent softFailingEnv (mkInput KindNew ''4'' (mkEvent ''E'' []))
                      (fresh (toyStore []))))) \<and>
   stepError
     (last (trace (snd (processRoomEvent softFailingEnv (mkInput KindNew ''4'' (mkEvent ''E'' []))
                          (fresh (toyStore [])))))) = None \<and>
   fst (processRoomEvent softFailingEnv (mkInput KindNew ''4'' (mkEvent ''E'' []))
          (fresh (toyStore []))) = (''E'', None)"
proof -
  let ?input = "mkInput KindNew ''4'' (mkEvent ''E'' [])"
  let ?run = "processRoomEvent softFailingEnv ?input (fresh (toyStore []))"
  let ?stored = "\<lparr>storedNID = 1,
                   stateAtEvent = \<lparr>Overwrite = False, BeforeStateSnapshotNID = 0, EventNID = 1\<rparr>,
                   redactionEvent = None, redactedEventID = ''''\<rparr>"
  have sf: "list_ex softFailVerdict (trace (snd ?run))"
    by (simp add: soft_failed_run)
  have mem: "CheckAuthEventsCall (mkHeadered ''4'' (mkEvent ''E'' [])) [] ([], None)
               \<in> set (trace (snd ?run))"
    by (simp add: soft_failed_run)
  have stored: "lastStoreEvent (trace (snd ?run)) = Some (Inr ?stored)"
    by (simp add: soft_failed_run)
  have rd: "redactIfTarget softFailingEnv False ?stored (Unwrap (Event ?input)) =
              Inr (mkEvent ''E'' [])"
    by (simp add: redactIfTarget_def mkInput_def mkHeadered_def mkEvent_def)
  have step: "stepError (last (trace (snd ?run))) = None"
    by (simp add: soft_failed_run)
  have eid: "eventID (mkEvent ''E'' []) = ''E''"
    by (simp add: mkEvent_def)
  from processRoomEvent_soft_failed [OF surjective_pairing,
        where env = softFailingEnv and input = ?input
          and w = "toyStore []" and h = "mkHeadered ''4'' (mkEvent ''E'' [])" and ids = "[]"
          and nids = "[]"] sf mem
  have "\<not> list_ex isUpdateLatestEvents (trace (snd ?run))"
    and "(case lastStoreEvent (trace (snd ?run)) of
               None \<Rightarrow> False
             | Some (Inl err) \<Rightarrow> fst ?run = ('''', Some (Wrapped ''r.DB.StoreEvent'' err))
             | Some (Inr stored) \<Rightarrow>
                 (case redactIfTarget softFailingEnv False stored (Unwrap (Event ?input)) of
                    Inl rerr \<Rightarrow> fst ?run = ('''', Some (Wrapped ''eventutil.RedactEvent'' rerr))
                  | Inr ev \<Rightarrow>
                      (case stepError (last (trace (snd ?run))) of
                         None \<Rightarrow> fst ?run = (eventID ev, None)
                       | Some err \<Rightarrow> fst ?run = ('''', Some err))))"
    by blast+
  then have "\<not> list_ex isUpdateLatestEvents (trace (snd ?run))" "fst ?run = (''E'', None)"
    by (simp_all add: stored rd step eid)
  with sf mem step show ?thesis by blast
qed

text \<open>
  Claim C5 as stated fails when a step after the store fails. The event is of kind
  \<open>New\<close>, passes the declared-auth check and soft-fails, and is stored; the room of the
  event does not exist, and line 172 returns the empty string and an error, before the
  return of line 193: not the event ID with a \<^verbatim>\<open>nil\<close> error.
\<close>

theorem processRoomEvent_soft_failed_room_missing:
  "processRoomEvent roomlessSoftFailingEnv (mkInput KindNew ''4'' (mkEvent ''E'' []))
       (fresh (toyStore [])) =
     (('''', Some (Errorf ''r.DB.RoomInfo missing for room !r'')),
      \<lparr>world = toyStore [mkEvent ''E'' []],
       trace =
         [CheckAuthEventsCall (mkHeadered ''4'' (mkEvent ''E'' [])) [] ([], None),
          CheckForSoftFailCall (mkHeadered ''4'' (mkEvent ''E'' [])) [] (True, None),
          StoreEventCall (mkEvent ''E'' []) [] False
            (Inr \<lparr>storedNID = 1,
                   stateAtEvent = \<lparr>Overwrite = False, BeforeStateSnapshotNID = 0, EventNID = 1\<rparr>,
                   redactionEvent = None, redactedEventID = ''''\<rparr>),
          RoomInfoCall ''!r'' (Inr None)]\<rparr>)"
  by (simp add: model_defs toy_defs softFailingEnv_def roomlessSoftFailingEnv_def)

section \<open>The state before the event\<close>

lemma calculateAndSetState_outcome:
  "calculateAndSetState env input roomInfo sae0 event isRejected s = (err, sae, s1) \<Longrightarrow>
     \<exists>cs. trace s1 = trace s @ cs \<and> list_all stateCall cs \<and>
       (case err of
          None \<Rightarrow> \<exists>snap. list_ex (computesSnapshot snap) cs \<and>
                    SetStateCall (EventNID sae0) snap None \<in> set cs
        | Some e \<Rightarrow> list_ex failedStateCall cs)"
  by (auto simp: calculateAndSetState_def perform_def Let_def
           split: prod.splits sum.splits option.splits if_splits)

lemma ensureStateSnapshot_outcome:
  assumes "ensureStateSnapshot env input roomInfo sae0 event isRejected s = (r, s1)"
    and "BeforeStateSnapshotNID sae0 = 0"
  shows "\<exists>cs. trace s1 = trace s @ cs \<and> list_all stateCall cs \<and>
       ((\<exists>snap. list_ex (computesSnapshot snap) cs \<and>
            SetStateCall (EventNID sae0) snap None \<in> set cs) \<or>
        (\<exists>e. r = Inl (Wrapped ''r.calculateAndSetState'' e)) \<or>
        (Kind input = KindOld \<and> list_ex failedStateCall cs))"
proof -
  obtain err sae s2 where c:
    "calculateAndSetState env input roomInfo sae0 event isRejected s = (err, sae, s2)"
    by (cases "calculateAndSetState env input roomInfo sae0 event isRejected s") auto
  from calculateAndSetState_outcome [OF c] obtain cs where
    cs: "trace s2 = trace s @ cs" "list_all stateCall cs"
      "(case err of
          None \<Rightarrow> \<exists>snap. list_ex (computesSnapshot snap) cs \<and>
                    SetStateCall (EventNID sae0) snap None \<in> set cs
        | Some e \<Rightarrow> list_ex failedStateCall cs)"
    by blast
  from assms c have s12: "s1 = s2"
    by (auto simp: ensureStateSnapshot_def split: option.splits if_splits)
  show ?thesis
  proof (cases err)
    case None
    with cs s12 show ?thesis by auto
  next
    case (Some e)
    with assms c have "r = Inl (Wrapped ''r.calculateAndSetState'' e) \<or> Kind input = KindOld"
      by (auto simp: ensureStateSnapshot_def split: if_splits)
    with cs s12 Some show ?thesis by auto
  qed
qed

lemma processStoredEvent_snapshot:
  assumes p: "processStoredEvent env input rej sf stored s = (res, s1)"
    and k: "Kind input \<noteq> KindOutlier"
    and z: "BeforeStateSnapshotNID (stateAtEvent stored) = 0"
  shows "\<exists>cs. trace s1 = trace s @ cs \<and>
       ((\<exists>snap. list_ex (computesSnapshot snap) cs \<and>
            SetStateCall (EventNID (stateAtEvent stored)) snap None \<in> set cs) \<or>
        abortedWith [''eventutil.RedactEvent'', ''r.DB.RoomInfo'', ''r.calculateAndSetState''] res \<or>
        (Kind input = KindOld \<and> list_ex failedStateCall cs))"
proof (cases "redactIfTarget env (rej \<noteq> None) stored (Unwrap (Event input))")
  case (Inl rerr)
  with p have "res = ('''', Some (Wrapped ''eventutil.RedactEvent'' rerr))"
    by (simp add: processStoredEvent_def)
  moreover from processStoredEvent_calls [OF p] obtain cs where "trace s1 = trace s @ cs" by blast
  ultimately show ?thesis by (auto simp: abortedWith_def)
next
  case (Inr event)
  obtain ri s2 where ri:
    "perform (\<lambda>w. RoomInfo env w (roomID event)) (RoomInfoCall (roomID event)) s = (ri, s2)"
    by (cases "perform (\<lambda>w. RoomInfo env w (roomID event)) (RoomInfoCall (roomID event)) s")
  from perform_trace [OF ri] have t2: "trace s2 = trace s @ [RoomInfoCall (roomID event) ri]"
    by simp
  show ?thesis
  proof (cases "\<exists>roomInfo. ri = Inr (Some roomInfo)")
    case False
    with p Inr k ri have "abortedWith [''eventutil.RedactEvent'', ''r.DB.RoomInfo'',
        ''r.calculateAndSetState''] res"
      by (cases ri; cases "projr ri") (auto simp: processStoredEvent_def abortedWith_def Let_def)
    moreover from processStoredEvent_calls [OF p] obtain cs where "trace s1 = trace s @ cs"
      by blast
    ultimately show ?thesis by blast
  next
    case True
    then obtain roomInfo where info: "ri = Inr (Some roomInfo)" by blast
    obtain es s3 where es:
      "ensureStateSnapshot env input roomInfo (stateAtEvent stored) event (rej \<noteq> None) s2 =
         (es, s3)"
      by (cases "ensureStateSnapshot env input roomInfo (stateAtEvent stored) event
                   (rej \<noteq> None) s2")
    from ensureStateSnapshot_outcome [OF es z] obtain cs3 where
      t3: "trace s3 = trace s2 @ cs3"
      and o3: "(\<exists>snap. list_ex (computesSnapshot snap) cs3 \<and>
            SetStateCall (EventNID (stateAtEvent stored)) snap None \<in> set cs3) \<or>
        (\<exists>e. es = Inl (Wrapped ''r.calculateAndSetState'' e)) \<or>
        (Kind input = KindOld \<and> list_ex failedStateCall cs3)"
      by blast
    have "\<exists>cs4. trace s1 = trace s3 @ cs4 \<and>
        ((\<exists>e. es = Inl (Wrapped ''r.calculateAndSetState'' e)) \<longrightarrow>
           abortedWith [''eventutil.RedactEvent'', ''r.DB.RoomInfo'',
             ''r.calculateAndSetState''] res)"
    proof (cases es)
      case (Inl err)
      with p Inr k ri info es have "s1 = s3" "res = ('''', Some err)"
        by (simp_all add: processStoredEvent_def)
      with Inl show ?thesis by (auto simp: abortedWith_def)
    next
      case (Inr sae)
      note esInr = this
      show ?thesis
      proof (cases "rej \<noteq> None \<or> sf")
        case True
        with p \<open>redactIfTarget env (rej \<noteq> None) stored (Unwrap (Event input)) = Inr event\<close>
          k ri info es esInr
        have "s1 = s3" by (auto simp: processStoredEvent_def)
        with esInr show ?thesis by simp
      next
        case False
        with p \<open>redactIfTarget env (rej \<noteq> None) stored (Unwrap (Event input)) = Inr event\<close>
          k ri info es esInr
        have "notifyRoomEvent env input roomInfo sae event stored s3 = (res, s1)"
          by (auto simp: processStoredEvent_def)
        from notifyRoomEvent_calls [OF this] esInr show ?thesis by auto
      qed
    qed
    then obtain cs4 where t4: "trace s1 = trace s3 @ cs4"
      and a4: "(\<exists>e. es = Inl (Wrapped ''r.calculateAndSetState'' e)) \<longrightarrow>
           abortedWith [''eventutil.RedactEvent'', ''r.DB.RoomInfo'',
             ''r.calculateAndSetState''] res"
      by blast
    have "trace s1 = trace s @ ([RoomInfoCall (roomID event) ri] @ cs3 @ cs4)"
      using t2 t3 t4 by simp
    moreover have "(\<exists>snap. list_ex (computesSnapshot snap) ([RoomInfoCall (roomID event) ri] @ cs3 @ cs4) \<and>
            SetStateCall (EventNID (stateAtEvent stored)) snap None
              \<in> set ([RoomInfoCall (roomID event) ri] @ cs3 @ cs4)) \<or>
        abortedWith [''eventutil.RedactEvent'', ''r.DB.RoomInfo'', ''r.calculateAndSetState''] res \<or>
        (Kind input = KindOld \<and> list_ex failedStateCall ([RoomInfoCall (roomID event) ri] @ cs3 @ cs4))"
      using o3 a4 by auto
    ultimately show ?thesis by blast
  qed
qed

text \<open>
  Claim C2, as amended. For an input of kind \<open>New\<close> or \<open>Old\<close> whose event
  \<^verbatim>\<open>r.DB.StoreEvent\<close> stored with \<^verbatim>\<open>BeforeStateSnapshotNID == 0\<close>,
  \<^verbatim>\<open>processRoomEvent\<close> does one of three things. It computes a snapshot (by
  \<^verbatim>\<open>r.DB.AddState\<close> or by \<^verbatim>\<open>CalculateAndStoreStateBeforeEvent\<close>) and binds it
  to the event with a successful \<^verbatim>\<open>r.DB.SetState\<close>; or it returns the error of
  \<^verbatim>\<open>eventutil.RedactEvent\<close>, \<^verbatim>\<open>r.DB.RoomInfo\<close> or
  \<^verbatim>\<open>calculateAndSetState\<close>; or the kind is \<open>Old\<close> and a call of the state
  computation failed, which line 179 ignores for that kind. For the kind \<open>New\<close> only the
  first two are left.
\<close>

theorem processRoomEvent_binds_snapshot:
  assumes run: "processRoomEvent env input (fresh w) = (res, s')"
    and kind: "Kind input \<noteq> KindOutlier"
    and auth: "CheckAuthEventsCall h ids (nids, rej) \<in> set (trace s')"
    and stored: "lastStoreEvent (trace s') = Some (Inr stored)"
    and zero: "BeforeStateSnapshotNID (stateAtEvent stored) = 0"
  shows "(\<exists>snap. list_ex (computesSnapshot snap) (trace s') \<and>
            SetStateCall (EventNID (stateAtEvent stored)) snap None \<in> set (trace s')) \<or>
         abortedWith [''eventutil.RedactEvent'', ''r.DB.RoomInfo'', ''r.calculateAndSetState''] res \<or>
         (Kind input = KindOld \<and> list_ex failedStateCall (trace s'))"
proof -
  from processRoomEvent_reaches_store [OF run auth] stored obtain s5 post where
    tr: "trace s' = trace s5 @ post"
    and fin: "processStoredEvent env input rej (list_ex softFailVerdict (trace s')) stored s5 =
             (res, s')"
    by auto
  from processStoredEvent_snapshot [OF fin kind zero] tr show ?thesis by auto
qed

text \<open>
  Claim C2 as stated fails for an input of kind \<open>Old\<close>: the event is stored with
  snapshot 0, the state computation fails, line 179 ignores the error, and
  \<^verbatim>\<open>processRoomEvent\<close> returns the event ID with a \<^verbatim>\<open>nil\<close> error although no
  snapshot was bound (\<^verbatim>\<open>r.DB.SetState\<close> is not called).
\<close>

theorem processRoomEvent_old_without_snapshot:
  "processRoomEvent stateFailingEnv (mkInput KindOld ''4'' (mkEvent ''E'' []))
       (fresh (toyStore [])) =
     ((''E'', None),
      \<lparr>world = toyStore [mkEvent ''E'' []],
       trace =
         [CheckAuthEventsCall (mkHeadered ''4'' (mkEvent ''E'' [])) [] ([], None),
          StoreEventCall (mkEvent ''E'' []) [] False
            (Inr \<lparr>storedNID = 1,
                   stateAtEvent = \<lparr>Overwrite = False, BeforeStateSnapshotNID = 0, EventNID = 1\<rparr>,
                   redactionEvent = None, redactedEventID = ''''\<rparr>),
          RoomInfoCall ''!r'' (Inr (Some \<lparr>RoomNID = 1, infoRoomVersion = ''4''\<rparr>)),
          CalculateAndStoreStateBeforeEventCall \<lparr>RoomNID = 1, infoRoomVersion = ''4''\<rparr>
            (mkEvent ''E'' []) False (0, Some (Errorf ''no state for the prev events'')),
          WriteOutputEventsCall ''!r'' [OutputOldRoomEvent (mkHeadered ''4'' (mkEvent ''E'' []))]
            None]\<rparr>)"
  by (simp add: model_defs toy_defs stateFailingEnv_def)

lemma accepted_new_run:
  "processRoomEvent toyEnv (mkInput KindNew ''4'' (mkEvent ''E'' [])) (fresh (toyStore [])) =
     ((''E'', None),
      \<lparr>world = toyStore [mkEvent ''E'' []],
       trace =
         [CheckAuthEventsCall (mkHeadered ''4'' (mkEvent ''E'' [])) [] ([], None),
          CheckForSoftFailCall (mkHeadered ''4'' (mkEvent ''E'' [])) [] (False, None),
          StoreEventCall (mkEvent ''E'' []) [] False
            (Inr \<lparr>storedNID = 1,
                   stateAtEvent = \<lparr>Overwrite = False, BeforeStateSnapshotNID = 0, EventNID = 1\<rparr>,
                   redactionEvent = None, redactedEventID = ''''\<rparr>),
          RoomInfoCall ''!r'' (Inr (Some \<lparr>RoomNID = 1, infoRoomVersion = ''4''\<rparr>)),
          CalculateAndStoreStateBeforeEventCall \<lparr>RoomNID = 1, infoRoomVersion = ''4''\<rparr>
            (mkEvent ''E'' []) False (8, None),
          SetStateCall 1 8 None,
          UpdateLatestEventsCall \<lparr>RoomNID = 1, infoRoomVersion = ''4''\<rparr>
            \<lparr>Overwrite = False, BeforeStateSnapshotNID = 8, EventNID = 1\<rparr>
            (mkEvent ''E'' []) '''' None False None]\<rparr>)"
  by (simp add: model_defs toy_defs)

theorem processRoomEvent_binds_snapshot_witness:
  "lastStoreEvent
     (trace (snd (processRoomEvent toyEnv (mkInput KindNew ''4'' (mkEvent ''E'' []))
                    (fresh (toyStore []))))) =
     Some (Inr \<lparr>storedNID = 1,
                 stateAtEvent = \<lparr>Overwrite = False, BeforeStateSnapshotNID = 0, EventNID = 1\<rparr>,
                 redactionEvent = None, redactedEventID = ''''\<rparr>) \<and>
   (\<exists>snap. list_ex (computesSnapshot snap)
             (trace (snd (processRoomEvent toyEnv (mkInput KindNew ''4'' (mkEvent ''E'' []))
                            (fresh (toyStore []))))) \<and>
           SetStateCall 1 snap None
             \<in> set (trace (snd (processRoomEvent toyEnv (mkInput KindNew ''4'' (mkEvent ''E'' []))
                                   (fresh (toyStore []))))))"
proof -
  let ?run = "processRoomEvent toyEnv (mkInput KindNew ''4'' (mkEvent ''E'' []))
                (fresh (toyStore []))"
  let ?stored = "\<lparr>storedNID = 1,
                 stateAtEvent = \<lparr>Overwrite = False, BeforeStateSnapshotNID = 0, EventNID = 1\<rparr>,
                 redactionEvent = None, redactedEventID = ''''\<rparr>"
  have kind: "Kind (mkInput KindNew ''4'' (mkEvent ''E'' [])) \<noteq> KindOutlier"
    by (simp add: mkInput_def)
  have auth: "CheckAuthEventsCall (mkHeadered ''4'' (mkEvent ''E'' [])) [] ([], None)
                \<in> set (trace (snd ?run))"
    by (simp add: accepted_new_run)
  have stored: "lastStoreEvent (trace (snd ?run)) = Some (Inr ?stored)"
    by (simp add: accepted_new_run)
  have zero: "BeforeStateSnapshotNID (stateAtEvent ?stored) = 0"
    by simp
  have ok: "\<not> abortedWith [''eventutil.RedactEvent'', ''r.DB.RoomInfo'',
                ''r.calculateAndSetState''] (fst ?run)"
    by (simp add: accepted_new_run abortedWith_def)
  show ?thesis
    using stored ok kind
      processRoomEvent_binds_snapshot [OF surjective_pairing kind auth stored zero]
    by (simp add: mkInput_def)
qed

section \<open>Notifications\<close>

lemma writesRedactedEvent_afterStore: "writesRedactedEvent c \<Longrightarrow> afterStoreCall c"
  by (cases c) auto

lemma stateCalls_no_redaction: "list_all stateCall cs \<Longrightarrow> \<not> list_ex writesRedactedEvent cs"
proof (induction cs)
  case Nil
  then show ?case by simp
next
  case (Cons c cs)
  then show ?case by (cases c) auto
qed

lemma notifyRoomEvent_redaction:
  assumes n: "notifyRoomEvent env input roomInfo sae event stored s = (res, s1)"
    and k: "Kind input \<noteq> KindOutlier"
    and red: "redactedEventID stored \<noteq> ''''"
  shows "(\<exists>d r. trace s1 = trace s @
            [d, WriteOutputEventsCall (roomID event)
                  [OutputRedactedEvent (redactedEventID stored)
                     (Headered (redactionEvent stored) (RoomVersion (Event input)))] r] \<and>
            dispatched (Kind input) (Event input) d \<and> \<not> writesRedactedEvent d \<and>
            (case r of
               None \<Rightarrow> res = (eventID event, None)
             | Some err \<Rightarrow> res = ('''', Some (Wrapped ''r.WriteOutputEvents (redactions)'' err)))) \<or>
         (\<exists>d err. trace s1 = trace s @ [d] \<and> \<not> writesRedactedEvent d \<and>
            stepError d = Some err \<and> res = ('''', Some err))"
proof -
  let ?W = "WriteOutputEventsCall (roomID event)
              [OutputRedactedEvent (redactedEventID stored)
                 (Headered (redactionEvent stored) (RoomVersion (Event input)))]"
  let ?step = "case Kind input of
                 KindNew \<Rightarrow>
                   (case perform
                           (\<lambda>w. updateLatestEvents env w roomInfo sae event (SendAsServer input)
                                   (TransactionID input) (HasState input))
                           (UpdateLatestEventsCall roomInfo sae event (SendAsServer input)
                              (TransactionID input) (HasState input)) s of
                      (Some err, s1) \<Rightarrow> (Some (Wrapped ''r.updateLatestEvents'' err), s1)
                    | (None, s1) \<Rightarrow> (None, s1))
               | KindOld \<Rightarrow>
                   (case perform
                           (\<lambda>w. WriteOutputEvents env w (roomID event) [OutputOldRoomEvent (Event input)])
                           (WriteOutputEventsCall (roomID event) [OutputOldRoomEvent (Event input)]) s of
                      (Some err, s1) \<Rightarrow> (Some (Wrapped ''r.WriteOutputEvents (old)'' err), s1)
                    | (None, s1) \<Rightarrow> (None, s1))
               | KindOutlier \<Rightarrow> (None, s)"
  obtain e2 s2 where step: "?step = (e2, s2)" by (cases ?step)
  have disp: "\<exists>d. trace s2 = trace s @ [d] \<and> \<not> writesRedactedEvent d \<and>
      (case e2 of
         None \<Rightarrow> dispatched (Kind input) (Event input) d
       | Some err \<Rightarrow> stepError d = Some err)"
    using step k
    by (cases "Kind input")
       (auto simp: perform_def split: prod.splits option.splits)
  then obtain d where d: "trace s2 = trace s @ [d]" "\<not> writesRedactedEvent d"
    "(case e2 of
         None \<Rightarrow> dispatched (Kind input) (Event input) d
       | Some err \<Rightarrow> stepError d = Some err)"
    by blast
  show ?thesis
  proof (cases e2)
    case (Some err)
    with n step have "res = ('''', Some err)" "s1 = s2"
      by (simp_all add: notifyRoomEvent_def Let_def)
    with d Some show ?thesis by auto
  next
    case None
    obtain r s3 where w:
      "perform (\<lambda>w. WriteOutputEvents env w (roomID event)
                      [OutputRedactedEvent (redactedEventID stored)
                         (Headered (redactionEvent stored) (RoomVersion (Event input)))]) ?W s2 =
         (r, s3)"
      by (cases "perform (\<lambda>w. WriteOutputEvents env w (roomID event)
                      [OutputRedactedEvent (redactedEventID stored)
                         (Headered (redactionEvent stored) (RoomVersion (Event input)))]) ?W s2")
    from perform_trace [OF w] have t3: "trace s3 = trace s2 @ [?W r]" by simp
    from n step None w red have fin: "s1 = s3"
      "(case r of
               None \<Rightarrow> res = (eventID event, None)
             | Some err \<Rightarrow> res = ('''', Some (Wrapped ''r.WriteOutputEvents (redactions)'' err)))"
      by (auto simp: notifyRoomEvent_def Let_def split: option.splits)
    have "trace s1 = trace s @ [d, ?W r]" using fin(1) t3 d(1) by simp
    with d None fin(2) show ?thesis by auto
  qed
qed

lemma processStoredEvent_redaction:
  assumes p: "processStoredEvent env input None False stored s = (res, s1)"
    and k: "Kind input \<noteq> KindOutlier"
    and red: "redactedEventID stored \<noteq> ''''"
  shows "case redactIfTarget env False stored (Unwrap (Event input)) of
           Inl rerr \<Rightarrow> res = ('''', Some (Wrapped ''eventutil.RedactEvent'' rerr)) \<and> s1 = s
         | Inr ev \<Rightarrow>
             (\<exists>pre d r. trace s1 = trace s @ pre @
                [d, WriteOutputEventsCall (roomID ev)
                      [OutputRedactedEvent (redactedEventID stored)
                         (Headered (redactionEvent stored) (RoomVersion (Event input)))] r] \<and>
                dispatched (Kind input) (Event input) d \<and>
                \<not> list_ex writesRedactedEvent (pre @ [d]) \<and>
                (case r of
                   None \<Rightarrow> res = (eventID ev, None)
                 | Some err \<Rightarrow>
                     res = ('''', Some (Wrapped ''r.WriteOutputEvents (redactions)'' err)))) \<or>
             (\<exists>cs err. trace s1 = trace s @ cs \<and> cs \<noteq> [] \<and>
                \<not> list_ex writesRedactedEvent cs \<and>
                stepError (last cs) = Some err \<and> res = ('''', Some err))"
proof (cases "redactIfTarget env False stored (Unwrap (Event input))")
  case (Inl rerr)
  with p show ?thesis by (simp add: processStoredEvent_def)
next
  case (Inr event)
  note rd = this
  let ?W = "WriteOutputEventsCall (roomID event)
              [OutputRedactedEvent (redactedEventID stored)
                 (Headered (redactionEvent stored) (RoomVersion (Event input)))]"
  obtain ri s2 where ri:
    "perform (\<lambda>w. RoomInfo env w (roomID event)) (RoomInfoCall (roomID event)) s = (ri, s2)"
    by (cases "perform (\<lambda>w. RoomInfo env w (roomID event)) (RoomInfoCall (roomID event)) s")
  from perform_trace [OF ri] have t2: "trace s2 = trace s @ [RoomInfoCall (roomID event) ri]"
    by simp
  have "(\<exists>pre d r. trace s1 = trace s @ pre @ [d, ?W r] \<and>
                dispatched (Kind input) (Event input) d \<and>
                \<not> list_ex writesRedactedEvent (pre @ [d]) \<and>
                (case r of
                   None \<Rightarrow> res = (eventID event, None)
                 | Some err \<Rightarrow>
                     res = ('''', Some (Wrapped ''r.WriteOutputEvents (redactions)'' err)))) \<or>
             (\<exists>cs err. trace s1 = trace s @ cs \<and> cs \<noteq> [] \<and>
                \<not> list_ex writesRedactedEvent cs \<and>
                stepError (last cs) = Some err \<and> res = ('''', Some err))"
  proof (cases "\<exists>roomInfo. ri = Inr (Some roomInfo)")
    case False
    with p rd k ri have "res = ('''', stepError (RoomInfoCall (roomID event) ri)) \<and>
        stepError (RoomInfoCall (roomID event) ri) \<noteq> None \<and> s1 = s2"
      by (cases ri; cases "projr ri") (auto simp: processStoredEvent_def Let_def)
    with t2 have "trace s1 = trace s @ [RoomInfoCall (roomID event) ri] \<and>
        [RoomInfoCall (roomID event) ri] \<noteq> [] \<and>
        \<not> list_ex writesRedactedEvent [RoomInfoCall (roomID event) ri] \<and>
        (\<exists>err. stepError (last [RoomInfoCall (roomID event) ri]) = Some err \<and>
               res = ('''', Some err))"
      by auto
    then show ?thesis by blast
  next
    case True
    then obtain roomInfo where info: "ri = Inr (Some roomInfo)" by blast
    obtain es s3 where es:
      "ensureStateSnapshot env input roomInfo (stateAtEvent stored) event False s2 = (es, s3)"
      by (cases "ensureStateSnapshot env input roomInfo (stateAtEvent stored) event False s2")
    from ensureStateSnapshot_stepError [OF es] obtain cs3 where
      t3: "trace s3 = trace s2 @ cs3" and st3: "list_all stateCall cs3"
      and o3: "(case es of
          Inl err \<Rightarrow> cs3 \<noteq> [] \<and> stepError (last cs3) = Some err
        | Inr sae \<Rightarrow> Kind input = KindOld \<or> cs3 = [] \<or> stepError (last cs3) = None)"
      by blast
    note q3 = stateCalls_no_redaction [OF st3]
    show ?thesis
    proof (cases es)
      case (Inl err)
      with p rd k ri info es have "s1 = s3" "res = ('''', Some err)"
        by (simp_all add: processStoredEvent_def)
      with t2 t3 q3 o3 Inl
      have "trace s1 = trace s @ (RoomInfoCall (roomID event) ri # cs3) \<and>
        RoomInfoCall (roomID event) ri # cs3 \<noteq> [] \<and>
        \<not> list_ex writesRedactedEvent (RoomInfoCall (roomID event) ri # cs3) \<and>
        stepError (last (RoomInfoCall (roomID event) ri # cs3)) = Some err \<and>
        res = ('''', Some err)"
        by auto
      then show ?thesis by blast
    next
      case (Inr sae)
      with p rd k ri info es
      have n: "notifyRoomEvent env input roomInfo sae event stored s3 = (res, s1)"
        by (simp add: processStoredEvent_def)
      from notifyRoomEvent_redaction [OF n k red] show ?thesis
      proof
        assume "\<exists>d r. trace s1 = trace s3 @ [d, ?W r] \<and>
            dispatched (Kind input) (Event input) d \<and> \<not> writesRedactedEvent d \<and>
            (case r of
               None \<Rightarrow> res = (eventID event, None)
             | Some err \<Rightarrow> res = ('''', Some (Wrapped ''r.WriteOutputEvents (redactions)'' err)))"
        then obtain d r where
          t4: "trace s1 = trace s3 @ [d, ?W r]"
          and d: "dispatched (Kind input) (Event input) d" "\<not> writesRedactedEvent d"
          and r: "(case r of
               None \<Rightarrow> res = (eventID event, None)
             | Some err \<Rightarrow> res = ('''', Some (Wrapped ''r.WriteOutputEvents (redactions)'' err)))"
          by blast
        have "trace s1 = trace s @ ([RoomInfoCall (roomID event) ri] @ cs3) @ [d, ?W r]"
          using t2 t3 t4 by simp
        moreover have "\<not> list_ex writesRedactedEvent (([RoomInfoCall (roomID event) ri] @ cs3) @ [d])"
          using q3 d(2) by simp
        ultimately show ?thesis using d(1) r by blast
      next
        assume "\<exists>d err. trace s1 = trace s3 @ [d] \<and> \<not> writesRedactedEvent d \<and>
            stepError d = Some err \<and> res = ('''', Some err)"
        then obtain d err where t4: "trace s1 = trace s3 @ [d]" "\<not> writesRedactedEvent d"
          "stepError d = Some err" "res = ('''', Some err)" by blast
        have "trace s1 = trace s @ ([RoomInfoCall (roomID event) ri] @ cs3 @ [d])"
          using t2 t3 t4 by simp
        moreover have "\<not> list_ex writesRedactedEvent ([RoomInfoCall (roomID event) ri] @ cs3 @ [d])"
          using q3 t4(2) by simp
        moreover have "stepError (last ([RoomInfoCall (roomID event) ri] @ cs3 @ [d])) = Some err"
          using t4(3) by simp
        moreover have "[RoomInfoCall (roomID event) ri] @ cs3 @ [d] \<noteq> []" by simp
        ultimately show ?thesis using t4(4) by blast
      qed
    qed
  qed
  with rd show ?thesis by simp
qed

text \<open>
  Claim C8, as amended. For an input of kind \<open>New\<close> or \<open>Old\<close> that is neither
  rejected nor soft-failed and for which \<^verbatim>\<open>r.DB.StoreEvent\<close> reports a non-empty
  \<^verbatim>\<open>redactedEventID\<close>, one of three things happens. The redaction of lines 145 to
  152 fails: \<^verbatim>\<open>processRoomEvent\<close> returns that error and no \<^verbatim>\<open>RedactedEvent\<close> is
  written. Or the last two calls are the successful dispatch on the kind
  (\<^verbatim>\<open>updateLatestEvents\<close>, which emits the \<^verbatim>\<open>NewRoomEvent\<close>, or the output of the
  \<^verbatim>\<open>OldRoomEvent\<close>) and then one \<^verbatim>\<open>WriteOutputEvents\<close>, to the room of the event,
  whose single entry is the \<^verbatim>\<open>RedactedEvent\<close> with that \<^verbatim>\<open>redactedEventID\<close> and
  the redaction event under the room version of the input; no other call of the trace
  writes a \<^verbatim>\<open>RedactedEvent\<close>, and the result is the event ID with a \<^verbatim>\<open>nil\<close>
  error, or the error of that write. Or the last call of the trace failed
  (\<^verbatim>\<open>r.DB.RoomInfo\<close>, a call of \<^verbatim>\<open>calculateAndSetState\<close> for the kind \<open>New\<close>,
  \<^verbatim>\<open>updateLatestEvents\<close>, the output of the \<^verbatim>\<open>OldRoomEvent\<close>): the result is the
  empty string and the error of that step, and no \<^verbatim>\<open>RedactedEvent\<close> is written.
\<close>

theorem processRoomEvent_emits_redaction:
  assumes run: "processRoomEvent env input (fresh w) = (res, s')"
    and kind: "Kind input \<noteq> KindOutlier"
    and auth: "CheckAuthEventsCall h ids (nids, None) \<in> set (trace s')"
    and nosf: "\<not> list_ex softFailVerdict (trace s')"
    and stored: "lastStoreEvent (trace s') = Some (Inr stored)"
    and red: "redactedEventID stored \<noteq> ''''"
  shows "case redactIfTarget env False stored (Unwrap (Event input)) of
           Inl rerr \<Rightarrow>
             res = ('''', Some (Wrapped ''eventutil.RedactEvent'' rerr)) \<and>
             \<not> list_ex writesRedactedEvent (trace s')
         | Inr ev \<Rightarrow>
             (\<exists>pre d r. trace s' = pre @
                [d, WriteOutputEventsCall (roomID ev)
                      [OutputRedactedEvent (redactedEventID stored)
                         (Headered (redactionEvent stored) (RoomVersion (Event input)))] r] \<and>
                dispatched (Kind input) (Event input) d \<and>
                \<not> list_ex writesRedactedEvent (pre @ [d]) \<and>
                (case r of
                   None \<Rightarrow> res = (eventID ev, None)
                 | Some err \<Rightarrow>
                     res = ('''', Some (Wrapped ''r.WriteOutputEvents (redactions)'' err)))) \<or>
             (\<exists>err. stepError (last (trace s')) = Some err \<and> res = ('''', Some err) \<and>
                \<not> list_ex writesRedactedEvent (trace s'))"
proof -
  from processRoomEvent_reaches_store [OF run auth] stored nosf obtain s5 post where
    tr: "trace s' = trace s5 @ post" "\<not> list_ex afterStoreCall (trace s5)"
    and fin: "processStoredEvent env input None False stored s5 = (res, s')"
    by auto
  have q5: "\<not> list_ex writesRedactedEvent (trace s5)"
    using tr(2) by (auto simp: list_ex_iff dest: writesRedactedEvent_afterStore)
  show ?thesis
  proof (cases "redactIfTarget env False stored (Unwrap (Event input))")
    case (Inl rerr)
    with processStoredEvent_redaction [OF fin kind red] q5 show ?thesis by simp
  next
    case (Inr ev)
    let ?W = "WriteOutputEventsCall (roomID ev)
                [OutputRedactedEvent (redactedEventID stored)
                   (Headered (redactionEvent stored) (RoomVersion (Event input)))]"
    from processStoredEvent_redaction [OF fin kind red] Inr
    have "(\<exists>pre d r. trace s' = trace s5 @ pre @ [d, ?W r] \<and>
                dispatched (Kind input) (Event input) d \<and>
                \<not> list_ex writesRedactedEvent (pre @ [d]) \<and>
                (case r of
                   None \<Rightarrow> res = (eventID ev, None)
                 | Some err \<Rightarrow>
                     res = ('''', Some (Wrapped ''r.WriteOutputEvents (redactions)'' err)))) \<or>
             (\<exists>cs err. trace s' = trace s5 @ cs \<and> cs \<noteq> [] \<and>
                \<not> list_ex writesRedactedEvent cs \<and>
                stepError (last cs) = Some err \<and> res = ('''', Some err))"
      by simp
    then have "(\<exists>pre d r. trace s' = pre @ [d, ?W r] \<and>
                dispatched (Kind input) (Event input) d \<and>
                \<not> list_ex writesRedactedEvent (pre @ [d]) \<and>
                (case r of
                   None \<Rightarrow> res = (eventID ev, None)
                 | Some err \<Rightarrow>
                     res = ('''', Some (Wrapped ''r.WriteOutputEvents (redactions)'' err)))) \<or>
             (\<exists>err. stepError (last (trace s')) = Some err \<and> res = ('''', Some err) \<and>
                \<not> list_ex writesRedactedEvent (trace s'))"
    proof
      assume "\<exists>pre d r. trace s' = trace s5 @ pre @ [d, ?W r] \<and>
                dispatched (Kind input) (Event input) d \<and>
                \<not> list_ex writesRedactedEvent (pre @ [d]) \<and>
                (case r of
                   None \<Rightarrow> res = (eventID ev, None)
                 | Some err \<Rightarrow>
                     res = ('''', Some (Wrapped ''r.WriteOutputEvents (redactions)'' err)))"
      then obtain pre d r where
        t: "trace s' = (trace s5 @ pre) @ [d, ?W r]"
        and d: "dispatched (Kind input) (Event input) d"
        and q: "\<not> list_ex writesRedactedEvent (pre @ [d])"
        and r: "(case r of
                   None \<Rightarrow> res = (eventID ev, None)
                 | Some err \<Rightarrow>
                     res = ('''', Some (Wrapped ''r.WriteOutputEvents (redactions)'' err)))"
        by auto
      have "\<not> list_ex writesRedactedEvent ((trace s5 @ pre) @ [d])"
        using q q5 by simp
      with t d r show ?thesis by blast
    next
      assume "\<exists>cs err. trace s' = trace s5 @ cs \<and> cs \<noteq> [] \<and>
                \<not> list_ex writesRedactedEvent cs \<and>
                stepError (last cs) = Some err \<and> res = ('''', Some err)"
      with q5 show ?thesis by auto
    qed
    with Inr show ?thesis by simp
  qed
qed

lemma redacted_new_run:
  "processRoomEvent redactingEnv (mkInput KindNew ''4'' (mkEvent ''E'' [])) (fresh (toyStore [])) =
     ((''E'', None),
      \<lparr>world = toyStore [mkEvent ''E'' []],
       trace =
         [CheckAuthEventsCall (mkHeadered ''4'' (mkEvent ''E'' [])) [] ([], None),
          CheckForSoftFailCall (mkHeadered ''4'' (mkEvent ''E'' [])) [] (False, None),
          StoreEventCall (mkEvent ''E'' []) [] False (Inr storedE),
          RoomInfoCall ''!r'' (Inr (Some \<lparr>RoomNID = 1, infoRoomVersion = ''4''\<rparr>)),
          CalculateAndStoreStateBeforeEventCall \<lparr>RoomNID = 1, infoRoomVersion = ''4''\<rparr>
            redactedE False (8, None),
          SetStateCall 1 8 None,
          UpdateLatestEventsCall \<lparr>RoomNID = 1, infoRoomVersion = ''4''\<rparr>
            \<lparr>Overwrite = False, BeforeStateSnapshotNID = 8, EventNID = 1\<rparr>
            redactedE '''' None False None,
          WriteOutputEventsCall ''!r''
            [OutputRedactedEvent ''E'' (Some redactionR, ''4'')] None]\<rparr>)"
  by (simp add: model_defs toy_defs redactingEnv_def redactedE_def storedE_def)

theorem processRoomEvent_emits_redaction_witness:
  "lastStoreEvent
     (trace (snd (processRoomEvent redactingEnv (mkInput KindNew ''4'' (mkEvent ''E'' []))
                    (fresh (toyStore []))))) = Some (Inr storedE) \<and>
   redactedEventID storedE = ''E'' \<and>
   redactIfTarget redactingEnv False storedE (mkEvent ''E'' []) = Inr redactedE \<and>
   (\<exists>pre d r.
      trace (snd (processRoomEvent redactingEnv (mkInput KindNew ''4'' (mkEvent ''E'' []))
                    (fresh (toyStore [])))) =
        pre @ [d, WriteOutputEventsCall ''!r''
                    [OutputRedactedEvent ''E'' (Headered (Some redactionR) ''4'')] r] \<and>
      dispatched KindNew (mkHeadered ''4'' (mkEvent ''E'' [])) d \<and>
      \<not> list_ex writesRedactedEvent (pre @ [d]) \<and> r = None) \<and>
   fst (processRoomEvent redactingEnv (mkInput KindNew ''4'' (mkEvent ''E'' []))
          (fresh (toyStore []))) = (''E'', None)"
proof -
  let ?input = "mkInput KindNew ''4'' (mkEvent ''E'' [])"
  let ?run = "processRoomEvent redactingEnv ?input (fresh (toyStore []))"
  have kind: "Kind ?input \<noteq> KindOutlier"
    by (simp add: mkInput_def)
  have auth: "CheckAuthEventsCall (mkHeadered ''4'' (mkEvent ''E'' [])) [] ([], None)
                \<in> set (trace (snd ?run))"
    by (simp add: redacted_new_run)
  have nosf: "\<not> list_ex softFailVerdict (trace (snd ?run))"
    by (simp add: redacted_new_run)
  have stored: "lastStoreEvent (trace (snd ?run)) = Some (Inr storedE)"
    by (simp add: redacted_new_run)
  have red: "redactedEventID storedE \<noteq> ''''" "redactedEventID storedE = ''E''"
    "redactionEvent storedE = Some redactionR"
    by (simp_all add: storedE_def)
  have inp: "Kind ?input = KindNew" "Event ?input = mkHeadered ''4'' (mkEvent ''E'' [])"
    "RoomVersion (mkHeadered ''4'' (mkEvent ''E'' [])) = ''4''"
    "Unwrap (mkHeadered ''4'' (mkEvent ''E'' [])) = mkEvent ''E'' []"
    by (simp_all add: mkInput_def mkHeadered_def)
  have rd: "redactIfTarget redactingEnv False storedE (mkEvent ''E'' []) = Inr redactedE"
    by (simp add: redactIfTarget_def redactingEnv_def toyEnv_def storedE_def redactedE_def
                  redactionR_def mkEvent_def)
  have ev: "roomID redactedE = ''!r''" "eventID redactedE = ''E''"
    by (simp_all add: redactedE_def mkEvent_def)
  have res: "fst ?run = (''E'', None)"
    by (simp add: redacted_new_run)
  from processRoomEvent_emits_redaction [OF surjective_pairing kind auth nosf stored red(1)]
  have "(\<exists>pre d r. trace (snd ?run) = pre @
                [d, WriteOutputEventsCall ''!r''
                      [OutputRedactedEvent ''E'' (Headered (Some redactionR) ''4'')] r] \<and>
                dispatched KindNew (mkHeadered ''4'' (mkEvent ''E'' [])) d \<and>
                \<not> list_ex writesRedactedEvent (pre @ [d]) \<and>
                (case r of
                   None \<Rightarrow> fst ?run = (''E'', None)
                 | Some err \<Rightarrow>
                     fst ?run = ('''', Some (Wrapped ''r.WriteOutputEvents (redactions)'' err)))) \<or>
             (\<exists>err. stepError (last (trace (snd ?run))) = Some err \<and>
                fst ?run = ('''', Some err) \<and>
                \<not> list_ex writesRedactedEvent (trace (snd ?run)))"
    by (simp only: inp rd red(2,3) ev sum.case)
  then have "\<exists>pre d r.
      trace (snd ?run) =
        pre @ [d, WriteOutputEventsCall ''!r''
                    [OutputRedactedEvent ''E'' (Headered (Some redactionR) ''4'')] r] \<and>
      dispatched KindNew (mkHeadered ''4'' (mkEvent ''E'' [])) d \<and>
      \<not> list_ex writesRedactedEvent (pre @ [d]) \<and> r = None"
  proof
    assume "\<exists>pre d r. trace (snd ?run) = pre @
                [d, WriteOutputEventsCall ''!r''
                      [OutputRedactedEvent ''E'' (Headered (Some redactionR) ''4'')] r] \<and>
                dispatched KindNew (mkHeadered ''4'' (mkEvent ''E'' [])) d \<and>
                \<not> list_ex writesRedactedEvent (pre @ [d]) \<and>
                (case r of
                   None \<Rightarrow> fst ?run = (''E'', None)
                 | Some err \<Rightarrow>
                     fst ?run = ('''', Some (Wrapped ''r.WriteOutputEvents (redactions)'' err)))"
    then obtain pre d r where
      a: "trace (snd ?run) = pre @
                [d, WriteOutputEventsCall ''!r''
                      [OutputRedactedEvent ''E'' (Headered (Some redactionR) ''4'')] r]"
        "dispatched KindNew (mkHeadered ''4'' (mkEvent ''E'' [])) d"
        "\<not> list_ex writesRedactedEvent (pre @ [d])"
      and r: "(case r of
                   None \<Rightarrow> fst ?run = (''E'', None)
                 | Some err \<Rightarrow>
                     fst ?run = ('''', Some (Wrapped ''r.WriteOutputEvents (redactions)'' err)))"
      by blast
    from r res have "r = None" by (cases r) simp_all
    with a show ?thesis by blast
  next
    assume "\<exists>err. stepError (last (trace (snd ?run))) = Some err \<and>
                fst ?run = ('''', Some err) \<and>
                \<not> list_ex writesRedactedEvent (trace (snd ?run))"
    with res show ?thesis by simp
  qed
  with stored red(2) rd res show ?thesis by blast
qed

text \<open>
  Claim C8 as stated fails when the dispatch on the kind fails. The event is of kind
  \<open>New\<close>, neither rejected nor soft-failed, and the store reports the non-empty
  \<^verbatim>\<open>redactedEventID\<close> \<open>E\<close>; \<^verbatim>\<open>updateLatestEvents\<close> fails, line 207 returns its
  error, and the call ends before line 228: no \<^verbatim>\<open>RedactedEvent\<close> is written.
\<close>

theorem processRoomEvent_no_redaction_after_failed_dispatch:
  "processRoomEvent staleLatestEnv (mkInput KindNew ''4'' (mkEvent ''E'' []))
       (fresh (toyStore [])) =
     (('''', Some (Wrapped ''r.updateLatestEvents'' (Errorf ''latest events are locked''))),
      \<lparr>world = toyStore [mkEvent ''E'' []],
       trace =
         [CheckAuthEventsCall (mkHeadered ''4'' (mkEvent ''E'' [])) [] ([], None),
          CheckForSoftFailCall (mkHeadered ''4'' (mkEvent ''E'' [])) [] (False, None),
          StoreEventCall (mkEvent ''E'' []) [] False (Inr storedE),
          RoomInfoCall ''!r'' (Inr (Some \<lparr>RoomNID = 1, infoRoomVersion = ''4''\<rparr>)),
          CalculateAndStoreStateBeforeEventCall \<lparr>RoomNID = 1, infoRoomVersion = ''4''\<rparr>
            redactedE False (8, None),
          SetStateCall 1 8 None,
          UpdateLatestEventsCall \<lparr>RoomNID = 1, infoRoomVersion = ''4''\<rparr>
            \<lparr>Overwrite = False, BeforeStateSnapshotNID = 8, EventNID = 1\<rparr>
            redactedE '''' None False (Some (Errorf ''latest events are locked''))]\<rparr>) \<and>
   redactedEventID storedE = ''E''"
  by (simp add: model_defs toy_defs redactingEnv_def staleLatestEnv_def redactedE_def storedE_def)

section \<open>Redaction of the stored event\<close>

lemma usesEvent_before_store: "\<not> afterStoreCall c \<Longrightarrow> usesEvent ev c"
  by (cases c) (auto simp: afterStoreCall_def)

lemma calculateAndSetState_uses:
  "calculateAndSetState env input roomInfo sae0 event isRejected s = (err, sae, s1) \<Longrightarrow>
     \<exists>cs. trace s1 = trace s @ cs \<and> list_all (usesEvent event) cs"
  by (auto simp: calculateAndSetState_def perform_def Let_def
           split: prod.splits sum.splits option.splits if_splits)

lemma ensureStateSnapshot_uses:
  "ensureStateSnapshot env input roomInfo sae0 event isRejected s = (r, s1) \<Longrightarrow>
     \<exists>cs. trace s1 = trace s @ cs \<and> list_all (usesEvent event) cs"
  by (auto simp: ensureStateSnapshot_def split: prod.splits option.splits if_splits
           dest!: calculateAndSetState_uses)

lemma notifyRoomEvent_uses:
  assumes "notifyRoomEvent env input roomInfo sae event stored s = (res, s1)"
  shows "\<exists>cs. trace s1 = trace s @ cs \<and> list_all (usesEvent event) cs \<and>
           (res = (eventID event, None) \<or>
            abortedWith [''r.updateLatestEvents'', ''r.WriteOutputEvents (old)'',
                         ''r.WriteOutputEvents (redactions)''] res)"
  using assms
  by (cases "Kind input")
     (auto simp: notifyRoomEvent_def perform_def Let_def abortedWith_def
           split: prod.splits option.splits if_splits)

lemma processStoredEvent_uses:
  assumes p: "processStoredEvent env input rej sf stored s = (res, s1)"
  shows "case redactIfTarget env (rej \<noteq> None) stored (Unwrap (Event input)) of
           Inl rerr \<Rightarrow> res = ('''', Some (Wrapped ''eventutil.RedactEvent'' rerr)) \<and> s1 = s
         | Inr ev \<Rightarrow>
             (\<exists>cs. trace s1 = trace s @ cs \<and> list_all (usesEvent ev) cs) \<and>
             (fst res = eventID ev \<or>
              abortedWith [''r.DB.RoomInfo'', ''r.calculateAndSetState'', ''r.updateLatestEvents'',
                           ''r.WriteOutputEvents (old)'', ''r.WriteOutputEvents (redactions)''] res)"
proof (cases "redactIfTarget env (rej \<noteq> None) stored (Unwrap (Event input))")
  case (Inl rerr)
  with p show ?thesis by (simp add: processStoredEvent_def)
next
  case (Inr event)
  note rd = this
  have "(\<exists>cs. trace s1 = trace s @ cs \<and> list_all (usesEvent event) cs) \<and>
             (fst res = eventID event \<or>
              abortedWith [''r.DB.RoomInfo'', ''r.calculateAndSetState'', ''r.updateLatestEvents'',
                           ''r.WriteOutputEvents (old)'', ''r.WriteOutputEvents (redactions)''] res)"
  proof (cases "Kind input = KindOutlier")
    case True
    with p rd show ?thesis by (auto simp: processStoredEvent_def)
  next
    case k: False
    obtain ri s2 where ri:
      "perform (\<lambda>w. RoomInfo env w (roomID event)) (RoomInfoCall (roomID event)) s = (ri, s2)"
      by (cases "perform (\<lambda>w. RoomInfo env w (roomID event)) (RoomInfoCall (roomID event)) s")
    from perform_trace [OF ri] have t2: "trace s2 = trace s @ [RoomInfoCall (roomID event) ri]"
      by simp
    show ?thesis
    proof (cases "\<exists>roomInfo. ri = Inr (Some roomInfo)")
      case False
      with p rd k ri have "abortedWith [''r.DB.RoomInfo'', ''r.calculateAndSetState'',
          ''r.updateLatestEvents'', ''r.WriteOutputEvents (old)'',
          ''r.WriteOutputEvents (redactions)''] res \<and> s1 = s2"
        by (cases ri; cases "projr ri") (auto simp: processStoredEvent_def abortedWith_def Let_def)
      with t2 show ?thesis by auto
    next
      case True
      then obtain roomInfo where info: "ri = Inr (Some roomInfo)" by blast
      obtain es s3 where es:
        "ensureStateSnapshot env input roomInfo (stateAtEvent stored) event (rej \<noteq> None) s2 =
           (es, s3)"
        by (cases "ensureStateSnapshot env input roomInfo (stateAtEvent stored) event
                     (rej \<noteq> None) s2")
      from ensureStateSnapshot_uses [OF es] obtain cs3 where
        t3: "trace s3 = trace s2 @ cs3" and u3: "list_all (usesEvent event) cs3"
        by blast
      show ?thesis
      proof (cases es)
        case (Inl err)
        with p rd k ri info es have "s1 = s3" "res = ('''', Some err)"
          by (simp_all add: processStoredEvent_def)
        moreover from ensureStateSnapshot_error es Inl
        have "\<exists>e. err = Wrapped ''r.calculateAndSetState'' e" by blast
        ultimately show ?thesis using t2 t3 u3 by (auto simp: abortedWith_def)
      next
        case (Inr sae)
        note esInr = this
        show ?thesis
        proof (cases "rej \<noteq> None \<or> sf")
          case True
          with p rd k ri info es esInr have "s1 = s3" "fst res = eventID event"
            by (auto simp: processStoredEvent_def)
          with t2 t3 u3 show ?thesis by auto
        next
          case False
          with p rd k ri info es esInr
          have n: "notifyRoomEvent env input roomInfo sae event stored s3 = (res, s1)"
            by (auto simp: processStoredEvent_def)
          from notifyRoomEvent_uses [OF n] obtain cs4 where
            t4: "trace s1 = trace s3 @ cs4" and u4: "list_all (usesEvent event) cs4"
            and r4: "res = (eventID event, None) \<or>
              abortedWith [''r.updateLatestEvents'', ''r.WriteOutputEvents (old)'',
                         ''r.WriteOutputEvents (redactions)''] res"
            by blast
          have "trace s1 = trace s @ ([RoomInfoCall (roomID event) ri] @ cs3 @ cs4)"
            using t2 t3 t4 by simp
          moreover have "list_all (usesEvent event)
                           ([RoomInfoCall (roomID event) ri] @ cs3 @ cs4)"
            using u3 u4 by simp
          moreover from r4 have "fst res = eventID event \<or>
              abortedWith [''r.DB.RoomInfo'', ''r.calculateAndSetState'', ''r.updateLatestEvents'',
                           ''r.WriteOutputEvents (old)'', ''r.WriteOutputEvents (redactions)''] res"
            using abortedWith_mono
                    [of "[''r.updateLatestEvents'', ''r.WriteOutputEvents (old)'',
                          ''r.WriteOutputEvents (redactions)'']" res
                        "[''r.DB.RoomInfo'', ''r.calculateAndSetState'', ''r.updateLatestEvents'',
                          ''r.WriteOutputEvents (old)'', ''r.WriteOutputEvents (redactions)'']"]
            by auto
          ultimately show ?thesis by blast
        qed
      qed
    qed
  qed
  with rd show ?thesis by simp
qed

text \<open>
  Claim C7, as amended. For a stored event for which \<^verbatim>\<open>r.DB.StoreEvent\<close> reports a
  \<^verbatim>\<open>redactedEventID\<close> equal to the event ID of the event itself: when the event is not
  rejected, \<^verbatim>\<open>processRoomEvent\<close> applies \<^verbatim>\<open>eventutil.RedactEvent\<close>; if that fails
  it returns the error and makes no further call; otherwise every later call works on the
  redacted event (the room of \<^verbatim>\<open>r.DB.RoomInfo\<close> and of the outputs, the event of the
  state computation and of \<^verbatim>\<open>updateLatestEvents\<close>) and the event ID returned is that
  of the redacted event, for an outlier too. When the event is rejected it is not
  redacted, and the same calls work on the event as submitted.
\<close>

theorem processRoomEvent_uses_redacted_event:
  assumes run: "processRoomEvent env input (fresh w) = (res, s')"
    and auth: "CheckAuthEventsCall h ids (nids, rej) \<in> set (trace s')"
    and stored: "lastStoreEvent (trace s') = Some (Inr stored)"
    and target: "redactedEventID stored = eventID (Unwrap (Event input))"
  shows "case (if rej = None
               then RedactEvent env (redactionEvent stored) (Unwrap (Event input))
               else Inr (Unwrap (Event input))) of
           Inl rerr \<Rightarrow>
             res = ('''', Some (Wrapped ''eventutil.RedactEvent'' rerr)) \<and>
             \<not> list_ex afterStoreCall (trace s')
         | Inr ev \<Rightarrow>
             list_all (usesEvent ev) (trace s') \<and>
             (fst res = eventID ev \<or>
              abortedWith [''r.DB.RoomInfo'', ''r.calculateAndSetState'', ''r.updateLatestEvents'',
                           ''r.WriteOutputEvents (old)'', ''r.WriteOutputEvents (redactions)''] res)"
proof -
  from processRoomEvent_reaches_store [OF run auth] stored obtain s5 post where
    tr: "trace s' = trace s5 @ post" "\<not> list_ex afterStoreCall (trace s5)"
    and fin: "processStoredEvent env input rej (list_ex softFailVerdict (trace s')) stored s5 =
                (res, s')"
    by auto
  have rt: "redactIfTarget env (rej \<noteq> None) stored (Unwrap (Event input)) =
      (if rej = None
               then RedactEvent env (redactionEvent stored) (Unwrap (Event input))
               else Inr (Unwrap (Event input)))"
    using target by (simp add: redactIfTarget_def)
  have u5: "list_all (usesEvent ev) (trace s5)" for ev
    using tr(2) by (auto simp: list_all_iff list_ex_iff intro: usesEvent_before_store)
  from processStoredEvent_uses [OF fin] rt tr u5 show ?thesis
    by (auto split: sum.splits)
qed

text \<open>
  Claim C7 as stated fails for a rejected event: the store reports the event itself as
  redacted, line 146 tests \<^verbatim>\<open>!isRejected\<close>, the event is not redacted, and the state
  computation receives the event as submitted, which differs from its redacted form.
\<close>

theorem processRoomEvent_rejected_event_not_redacted:
  "processRoomEvent rejectingRedactingEnv (mkInput KindNew ''4'' (mkEvent ''E'' []))
       (fresh (toyStore [])) =
     ((''E'', Some (Errorf ''sender is not in the room'')),
      \<lparr>world = toyStore [mkEvent ''E'' []],
       trace =
         [CheckAuthEventsCall (mkHeadered ''4'' (mkEvent ''E'' [])) []
            ([], Some (Errorf ''sender is not in the room'')),
          CheckForSoftFailCall (mkHeadered ''4'' (mkEvent ''E'' [])) [] (False, None),
          StoreEventCall (mkEvent ''E'' []) [] True (Inr storedE),
          RoomInfoCall ''!r'' (Inr (Some \<lparr>RoomNID = 1, infoRoomVersion = ''4''\<rparr>)),
          CalculateAndStoreStateBeforeEventCall \<lparr>RoomNID = 1, infoRoomVersion = ''4''\<rparr>
            (mkEvent ''E'' []) True (8, None),
          SetStateCall 1 8 None]\<rparr>) \<and>
   redactedEventID storedE = eventID (mkEvent ''E'' []) \<and>
   RedactEvent rejectingRedactingEnv (redactionEvent storedE) (mkEvent ''E'' []) = Inr redactedE \<and>
   redactedE \<noteq> mkEvent ''E'' []"
  by (simp add: model_defs toy_defs redactingEnv_def rejectingRedactingEnv_def redactedE_def
        storedE_def)

theorem processRoomEvent_uses_redacted_event_witness:
  "lastStoreEvent
     (trace (snd (processRoomEvent redactingEnv (mkInput KindNew ''4'' (mkEvent ''E'' []))
                    (fresh (toyStore []))))) = Some (Inr storedE) \<and>
   redactedEventID storedE = eventID (mkEvent ''E'' []) \<and>
   RedactEvent redactingEnv (redactionEvent storedE) (mkEvent ''E'' []) = Inr redactedE \<and>
   list_all (usesEvent redactedE)
     (trace (snd (processRoomEvent redactingEnv (mkInput KindNew ''4'' (mkEvent ''E'' []))
                    (fresh (toyStore []))))) \<and>
   fst (fst (processRoomEvent redactingEnv (mkInput KindNew ''4'' (mkEvent ''E'' []))
               (fresh (toyStore [])))) = eventID redactedE"
proof -
  let ?input = "mkInput KindNew ''4'' (mkEvent ''E'' [])"
  let ?run = "processRoomEvent redactingEnv ?input (fresh (toyStore []))"
  have auth: "CheckAuthEventsCall (mkHeadered ''4'' (mkEvent ''E'' [])) [] ([], None)
                \<in> set (trace (snd ?run))"
    by (simp add: redacted_new_run)
  have stored: "lastStoreEvent (trace (snd ?run)) = Some (Inr storedE)"
    by (simp add: redacted_new_run)
  have inp: "Event ?input = mkHeadered ''4'' (mkEvent ''E'' [])"
    "Unwrap (mkHeadered ''4'' (mkEvent ''E'' [])) = mkEvent ''E'' []"
    by (simp_all add: mkInput_def mkHeadered_def)
  have target: "redactedEventID storedE = eventID (Unwrap (Event ?input))"
    by (simp only: inp) (simp add: storedE_def mkEvent_def)
  have red: "RedactEvent redactingEnv (redactionEvent storedE) (mkEvent ''E'' []) = Inr redactedE"
    by (simp add: redactingEnv_def toyEnv_def redactedE_def storedE_def redactionR_def)
  have ok: "\<not> abortedWith [''r.DB.RoomInfo'', ''r.calculateAndSetState'', ''r.updateLatestEvents'',
                ''r.WriteOutputEvents (old)'', ''r.WriteOutputEvents (redactions)''] (fst ?run)"
    by (simp add: redacted_new_run abortedWith_def)
  show ?thesis
    using stored target red ok
      processRoomEvent_uses_redacted_event [OF surjective_pairing auth stored target]
    by (simp add: inp)
qed

section \<open>The state supplied by the caller\<close>

text \<open>
  Claim C6, as amended. For an input that carries \<^verbatim>\<open>HasState\<close> and is not rejected,
  \<^verbatim>\<open>calculateAndSetState\<close> takes the path of the state supplied by the caller: it
  never calls \<^verbatim>\<open>CalculateAndStoreStateBeforeEvent\<close>; its first two calls are the
  membership query for the joined local users and
  \<^verbatim>\<open>r.DB.StateEntriesForEventIDs\<close> on the \<^verbatim>\<open>StateEventIDs\<close> of the input; and
  when it returns \<^verbatim>\<open>nil\<close> it has stored the deduplicated entries with
  \<^verbatim>\<open>r.DB.AddState\<close> and bound the snapshot to the event with \<^verbatim>\<open>r.DB.SetState\<close>.
  \<^verbatim>\<open>Overwrite\<close> is true exactly when the membership query reports no joined local
  user, and it is true when the membership query fails.
\<close>

theorem calculateAndSetState_supplied_state:
  assumes "HasState input" and "\<not> isRejected"
    and "calculateAndSetState env input roomInfo sae0 event isRejected s = (err, sae, s1)"
    and "GetMembershipEventNIDsForRoom env (world s) (RoomNID roomInfo) True True = (joined, w1)"
  shows "Overwrite sae = (case joined of Inr joinEventNIDs \<Rightarrow> joinEventNIDs = [] | Inl e \<Rightarrow> True) \<and>
    \<not> list_ex isCalculateAndStoreStateBeforeEvent (drop (length (trace s)) (trace s1)) \<and>
    (\<exists>r. take 2 (drop (length (trace s)) (trace s1)) =
         [GetMembershipEventNIDsForRoomCall (RoomNID roomInfo) True True joined,
          StateEntriesForEventIDsCall (StateEventIDs input) r]) \<and>
    (err = None \<longrightarrow>
       (\<exists>entries. trace s1 = trace s @
         [GetMembershipEventNIDsForRoomCall (RoomNID roomInfo) True True joined,
          StateEntriesForEventIDsCall (StateEventIDs input) (Inr entries),
          AddStateCall (RoomNID roomInfo) [] (DeduplicateStateEntries env entries)
            (BeforeStateSnapshotNID sae, None),
          SetStateCall (EventNID sae0) (BeforeStateSnapshotNID sae) None]))"
  using assms
  by (auto simp: calculateAndSetState_def perform_def Let_def
           split: prod.splits sum.splits option.splits if_splits)

text \<open>
  Claim C6 as stated fails when the membership query fails: the room has a joined local
  user (membership event 5), the query returns an error, and \<^verbatim>\<open>Overwrite\<close> keeps the
  value \<^verbatim>\<open>true\<close> of line 351.
\<close>

theorem calculateAndSetState_overwrite_on_failed_query:
  "joinedLocal \<lparr>storedEvents = [], joinedLocal = [5], membershipDown = True\<rparr> \<noteq> [] \<and>
   calculateAndSetState toyEnv statefulInput theRoom unboundState (mkEvent ''E'' []) False
       (fresh \<lparr>storedEvents = [], joinedLocal = [5], membershipDown = True\<rparr>) =
     (None,
      \<lparr>Overwrite = True, BeforeStateSnapshotNID = 7, EventNID = 1\<rparr>,
      \<lparr>world = \<lparr>storedEvents = [], joinedLocal = [5], membershipDown = True\<rparr>,
       trace =
         [GetMembershipEventNIDsForRoomCall 1 True True
            (Inl (Errorf ''membership table unavailable'')),
          StateEntriesForEventIDsCall [] (Inr []),
          AddStateCall 1 [] [] (7, None),
          SetStateCall 1 7 None]\<rparr>)"
  by (simp add: model_defs toy_defs statefulInput_def unboundState_def theRoom_def)

lemma supplied_state_run:
  "calculateAndSetState toyEnv statefulInput theRoom unboundState (mkEvent ''E'' []) False
       (fresh \<lparr>storedEvents = [], joinedLocal = [5], membershipDown = False\<rparr>) =
     (None,
      \<lparr>Overwrite = False, BeforeStateSnapshotNID = 7, EventNID = 1\<rparr>,
      \<lparr>world = \<lparr>storedEvents = [], joinedLocal = [5], membershipDown = False\<rparr>,
       trace =
         [GetMembershipEventNIDsForRoomCall 1 True True (Inr [5]),
          StateEntriesForEventIDsCall [] (Inr []),
          AddStateCall 1 [] [] (7, None),
          SetStateCall 1 7 None]\<rparr>)"
  by (simp add: model_defs toy_defs statefulInput_def unboundState_def theRoom_def)

theorem calculateAndSetState_supplied_state_witness:
  "HasState statefulInput \<and>
   GetMembershipEventNIDsForRoom toyEnv
       \<lparr>storedEvents = [], joinedLocal = [5], membershipDown = False\<rparr> 1 True True =
     (Inr [5], \<lparr>storedEvents = [], joinedLocal = [5], membershipDown = False\<rparr>) \<and>
   Overwrite (fst (snd (calculateAndSetState toyEnv statefulInput theRoom unboundState
                          (mkEvent ''E'' []) False
                          (fresh \<lparr>storedEvents = [], joinedLocal = [5],
                                   membershipDown = False\<rparr>)))) = False"
proof -
  let ?w = "\<lparr>storedEvents = [], joinedLocal = [5], membershipDown = False\<rparr>"
  have hs: "HasState statefulInput"
    by (simp add: statefulInput_def)
  have rej: "\<not> False" by simp
  have q: "GetMembershipEventNIDsForRoom toyEnv (world (fresh ?w)) (RoomNID theRoom) True True =
             (Inr [5], ?w)"
    by (simp add: toyEnv_def fresh_def)
  have q2: "GetMembershipEventNIDsForRoom toyEnv ?w 1 True True = (Inr [5], ?w)"
    by (simp add: toyEnv_def)
  show ?thesis
    using hs q2 calculateAndSetState_supplied_state [OF hs rej supplied_state_run q]
    by (simp add: supplied_state_run)
qed

section \<open>Outliers that were already processed\<close>

lemma ingestRoomEvent_not_silent:
  assumes "ingestRoomEvent env input s = (res, s')"
  shows "snd res \<noteq> None \<or> length (trace s) < length (trace s')"
  using ingestRoomEvent_run [OF assms]
proof
  assume "\<exists>err cs. res = ('''', Some (Wrapped ''r.checkForMissingAuthEvents'' err)) \<and>
            trace s' = trace s @ cs \<and> list_all beforeAuthCall cs"
  then show ?thesis by auto
next
  assume "\<exists>cs nids rej b e r s5.
            list_all beforeAuthCall cs \<and>
            trace s5 = trace s @ cs @
              [CheckAuthEventsCall (Event input) (AuthEventIDs input) (nids, rej)] @
              (if Kind input = KindNew
               then [CheckForSoftFailCall (Event input) (StateEventIDs input) (b, e)] else []) @
              [StoreEventCall (Unwrap (Event input)) nids (rej \<noteq> None) r] \<and>
            (Kind input \<noteq> KindNew \<longrightarrow> \<not> b) \<and>
            (case r of
               Inl err \<Rightarrow> s' = s5 \<and> res = ('''', Some (Wrapped ''r.DB.StoreEvent'' err))
             | Inr stored \<Rightarrow> processStoredEvent env input rej b stored s5 = (res, s'))"
  then obtain cs nids rej b e r s5 where
    t5: "trace s5 = trace s @ cs @
              [CheckAuthEventsCall (Event input) (AuthEventIDs input) (nids, rej)] @
              (if Kind input = KindNew
               then [CheckForSoftFailCall (Event input) (StateEventIDs input) (b, e)] else []) @
              [StoreEventCall (Unwrap (Event input)) nids (rej \<noteq> None) r]"
    and rest: "(case r of
               Inl err \<Rightarrow> s' = s5 \<and> res = ('''', Some (Wrapped ''r.DB.StoreEvent'' err))
             | Inr stored \<Rightarrow> processStoredEvent env input rej b stored s5 = (res, s'))"
    by blast
  have "length (trace s5) \<le> length (trace s')"
  proof (cases r)
    case (Inl err)
    with rest show ?thesis by simp
  next
    case (Inr stored)
    with rest have "processStoredEvent env input rej b stored s5 = (res, s')" by simp
    from processStoredEvent_calls [OF this] show ?thesis by auto
  qed
  moreover from t5 have "length (trace s) < length (trace s5)" by simp
  ultimately show ?thesis by simp
qed

text \<open>
  Claim C4. For an input of kind \<open>Outlier\<close> whose event ID is already stored (the lookup
  \<^verbatim>\<open>r.DB.EventsFromIDs\<close> returns exactly one event): when the room version has the
  event ID format \<open>V1\<close>, \<^verbatim>\<open>processRoomEvent\<close> returns the event ID with a \<^verbatim>\<open>nil\<close>
  error, having made no call but the lookup (so nothing is stored again), exactly when the
  SHA-256 reference hashes of the two events are equal, and goes on with the full ingest
  when they differ; for any other event ID format it returns the event ID, having made no
  call but the lookup, whatever the hashes are. (When the format of the room version cannot
  be determined, the ingest goes on.)
\<close>

theorem processRoomEvent_outlier_already_stored:
  assumes k: "Kind input = KindOutlier"
    and ev: "EventsFromIDs env (world s) [eventID (Unwrap (Event input))] = (Inr [known], w1)"
  shows "let event = Unwrap (Event input);
             s1 = \<lparr>world = w1,
                   trace = trace s @ [EventsFromIDsCall [eventID event] (Inr [known])]\<rparr>;
             skipped = (processRoomEvent env input s = ((eventID event, None), s1));
             ingested = (processRoomEvent env input s = ingestRoomEvent env input s1)
         in (case EventIDFormat env (RoomVersion (Event input)) of
               Inr EventIDFormatV1 \<Rightarrow>
                 (skipped \<longleftrightarrow> eventSHA256 event = eventSHA256 known) \<and>
                 (eventSHA256 event \<noteq> eventSHA256 known \<longrightarrow> ingested)
             | Inr _ \<Rightarrow> skipped
             | Inl _ \<Rightarrow> ingested)"
proof -
  let ?event = "Unwrap (Event input)"
  let ?s1 = "\<lparr>world = w1, trace = trace s @ [EventsFromIDsCall [eventID ?event] (Inr [known])]\<rparr>"
  have ap: "alreadyProcessed env input s =
      ((case EventIDFormat env (RoomVersion (Event input)) of
          Inr EventIDFormatV1 \<Rightarrow> eventSHA256 ?event = eventSHA256 known
        | Inr _ \<Rightarrow> True
        | Inl _ \<Rightarrow> False), ?s1)"
    using k ev
    by (simp add: alreadyProcessed_def perform_def Let_def
             split: sum.splits event_id_format.splits)
  have loud: "ingestRoomEvent env input ?s1 \<noteq> ((eventID ?event, None), ?s1)"
  proof
    assume "ingestRoomEvent env input ?s1 = ((eventID ?event, None), ?s1)"
    from ingestRoomEvent_not_silent [OF this] show False by simp
  qed
  show ?thesis
    using ap loud
    by (cases "EventIDFormat env (RoomVersion (Event input))";
        cases "eventSHA256 ?event = eventSHA256 known")
       (auto simp: processRoomEvent_def Let_def split: event_id_format.splits)
qed

theorem processRoomEvent_outlier_already_stored_witness:
  "EventsFromIDs toyEnv (toyStore [mkEvent ''E'' []]) [''E''] =
     (Inr [mkEvent ''E'' []], toyStore [mkEvent ''E'' []]) \<and>
   processRoomEvent toyEnv (mkInput KindOutlier ''1'' (mkEvent ''E'' []))
       (fresh (toyStore [mkEvent ''E'' []])) =
     ((''E'', None),
      \<lparr>world = toyStore [mkEvent ''E'' []],
       trace = [EventsFromIDsCall [''E''] (Inr [mkEvent ''E'' []])]\<rparr>) \<and>
   processRoomEvent toyEnv (mkInput KindOutlier ''1'' otherE)
       (fresh (toyStore [mkEvent ''E'' []])) =
     ingestRoomEvent toyEnv (mkInput KindOutlier ''1'' otherE)
       \<lparr>world = toyStore [mkEvent ''E'' []],
        trace = [EventsFromIDsCall [''E''] (Inr [mkEvent ''E'' []])]\<rparr> \<and>
   processRoomEvent toyEnv (mkInput KindOutlier ''4'' otherE)
       (fresh (toyStore [mkEvent ''E'' []])) =
     ((''E'', None),
      \<lparr>world = toyStore [mkEvent ''E'' []],
       trace = [EventsFromIDsCall [''E''] (Inr [mkEvent ''E'' []])]\<rparr>)"
proof -
  let ?w = "toyStore [mkEvent ''E'' []]"
  have look: "EventsFromIDs toyEnv ?w [''E''] = (Inr [mkEvent ''E'' []], ?w)"
    by (simp add: toyEnv_def toyStore_def mkEvent_def)
  have ids: "eventID (mkEvent ''E'' []) = ''E''" "eventID otherE = ''E''"
    "eventSHA256 otherE \<noteq> eventSHA256 (mkEvent ''E'' [])"
    by (simp_all add: mkEvent_def otherE_def)
  have fmt: "EventIDFormat toyEnv ''1'' = Inr EventIDFormatV1"
    "EventIDFormat toyEnv ''4'' = Inr EventIDFormatV3"
    by (simp_all add: toyEnv_def)
  have inp: "Kind (mkInput KindOutlier v e) = KindOutlier"
    "Unwrap (Event (mkInput KindOutlier v e)) = e"
    "RoomVersion (Event (mkInput KindOutlier v e)) = v" for v e
    by (simp_all add: mkInput_def mkHeadered_def)
  have st: "world (fresh ?w) = ?w" "trace (fresh ?w) = []"
    by (simp_all add: fresh_def)
  have ev1: "EventsFromIDs toyEnv (world (fresh ?w))
               [eventID (Unwrap (Event (mkInput KindOutlier v (mkEvent ''E'' []))))] =
             (Inr [mkEvent ''E'' []], ?w)" for v
    by (simp only: inp ids st look)
  have ev2: "EventsFromIDs toyEnv (world (fresh ?w))
               [eventID (Unwrap (Event (mkInput KindOutlier v otherE)))] =
             (Inr [mkEvent ''E'' []], ?w)" for v
    by (simp only: inp ids st look)
  show ?thesis
    using look
      processRoomEvent_outlier_already_stored [OF inp(1) ev1, of "''1''"]
      processRoomEvent_outlier_already_stored [OF inp(1) ev2, of "''1''"]
      processRoomEvent_outlier_already_stored [OF inp(1) ev2, of "''4''"]
    by (simp add: Let_def inp ids st fmt)
qed

section \<open>An error of the soft-fail check\<close>

lemma perform_forgetErrors:
  assumes "\<And>r. forgetSoftFailError (entry r) = entry r"
  shows "perform f entry (forgetErrors s) = apsnd forgetErrors (perform f entry s)"
  using assms by (simp add: perform_def forgetErrors_def split: prod.splits)

lemma checkForMissingAuthEvents_body_forgetErrors:
  "checkForMissingAuthEvents_body (withoutSoftFailError env) ev cache (forgetErrors s) =
     (case checkForMissingAuthEvents_body env ev cache s of
        (err, cache1, s1) \<Rightarrow> (err, cache1, forgetErrors s1))"
  by (simp add: checkForMissingAuthEvents_body_def perform_forgetErrors withoutSoftFailError_def
           Let_def split: prod.splits sum.splits option.splits)

lemma checkForMissingAuthEvents_loop_forgetErrors:
  "checkForMissingAuthEvents_loop (withoutSoftFailError env) evs cache (forgetErrors s) =
     (case checkForMissingAuthEvents_loop env evs cache s of
        (err, cache1, s1) \<Rightarrow> (err, cache1, forgetErrors s1))"
proof (induction evs arbitrary: cache s)
  case Nil
  then show ?case by simp
next
  case (Cons ev evs)
  then show ?case
    by (simp add: checkForMissingAuthEvents_body_forgetErrors split: prod.splits option.splits)
qed

lemma checkForMissingAuthEvents_forgetErrors:
  "checkForMissingAuthEvents (withoutSoftFailError env) h cache (forgetErrors s) =
     (case checkForMissingAuthEvents env h cache s of
        (err, cache1, s1) \<Rightarrow> (err, cache1, forgetErrors s1))"
proof -
  have pure: "ReverseTopologicalOrdering (withoutSoftFailError env) =
      ReverseTopologicalOrdering env"
    "EventNIDs (withoutSoftFailError env) = EventNIDs env"
    "QueryEventAuthFromFederation (withoutSoftFailError env) = QueryEventAuthFromFederation env"
    by (simp_all add: withoutSoftFailError_def)
  show ?thesis
    by (simp add: checkForMissingAuthEvents_def perform_forgetErrors pure
          checkForMissingAuthEvents_loop_forgetErrors Let_def
        split: prod.splits sum.splits option.splits)
qed

lemma calculateAndSetState_forgetErrors:
  "calculateAndSetState (withoutSoftFailError env) input roomInfo sae0 event isRejected
       (forgetErrors s) =
     (case calculateAndSetState env input roomInfo sae0 event isRejected s of
        (err, sae, s1) \<Rightarrow> (err, sae, forgetErrors s1))"
  by (auto simp: calculateAndSetState_def perform_forgetErrors withoutSoftFailError_def Let_def
           split: prod.splits sum.splits option.splits)

lemma ensureStateSnapshot_forgetErrors:
  "ensureStateSnapshot (withoutSoftFailError env) input roomInfo sae0 event isRejected
       (forgetErrors s) =
     apsnd forgetErrors (ensureStateSnapshot env input roomInfo sae0 event isRejected s)"
  by (simp add: ensureStateSnapshot_def calculateAndSetState_forgetErrors
           split: prod.splits option.splits)

lemma notifyRoomEvent_forgetErrors:
  "notifyRoomEvent (withoutSoftFailError env) input roomInfo sae event stored (forgetErrors s) =
     apsnd forgetErrors (notifyRoomEvent env input roomInfo sae event stored s)"
proof -
  have pure: "updateLatestEvents (withoutSoftFailError env) = updateLatestEvents env"
    "WriteOutputEvents (withoutSoftFailError env) = WriteOutputEvents env"
    by (simp_all add: withoutSoftFailError_def)
  show ?thesis
    by (cases "Kind input")
       (simp_all add: notifyRoomEvent_def perform_forgetErrors pure Let_def
          split: prod.splits option.splits)
qed

lemma processStoredEvent_forgetErrors:
  "processStoredEvent (withoutSoftFailError env) input rej sf stored (forgetErrors s) =
     apsnd forgetErrors (processStoredEvent env input rej sf stored s)"
proof -
  have pure: "RoomInfo (withoutSoftFailError env) = RoomInfo env"
    "redactIfTarget (withoutSoftFailError env) = redactIfTarget env"
    by (simp_all add: withoutSoftFailError_def redactIfTarget_def fun_eq_iff)
  show ?thesis
    by (simp add: processStoredEvent_def perform_forgetErrors pure Let_def
          ensureStateSnapshot_forgetErrors notifyRoomEvent_forgetErrors
        split: prod.splits sum.splits option.splits)
qed

lemma alreadyProcessed_forgetErrors:
  "alreadyProcessed (withoutSoftFailError env) input (forgetErrors s) =
     apsnd forgetErrors (alreadyProcessed env input s)"
proof -
  have pure: "EventsFromIDs (withoutSoftFailError env) = EventsFromIDs env"
    "EventIDFormat (withoutSoftFailError env) = EventIDFormat env"
    by (simp_all add: withoutSoftFailError_def)
  show ?thesis
    by (simp add: alreadyProcessed_def perform_forgetErrors pure Let_def
        split: prod.splits sum.splits event_id_format.splits)
qed

lemma checkForSoftFail_forgetErrors:
  "perform (\<lambda>w. CheckForSoftFail (withoutSoftFailError env) w h ids) (CheckForSoftFailCall h ids)
       (forgetErrors s) =
     (case perform (\<lambda>w. CheckForSoftFail env w h ids) (CheckForSoftFailCall h ids) s of
        ((softfail, err), s1) \<Rightarrow> ((softfail, None), forgetErrors s1))"
  by (simp add: perform_def forgetErrors_def withoutSoftFailError_def split: prod.splits)

lemma ingestRoomEvent_forgetErrors:
  "ingestRoomEvent (withoutSoftFailError env) input (forgetErrors s) =
     apsnd forgetErrors (ingestRoomEvent env input s)"
proof -
  have pure: "CheckAuthEvents (withoutSoftFailError env) = CheckAuthEvents env"
    "StoreEvent (withoutSoftFailError env) = StoreEvent env"
    by (simp_all add: withoutSoftFailError_def)
  show ?thesis
    by (simp add: ingestRoomEvent_def perform_forgetErrors pure Let_def
          checkForMissingAuthEvents_forgetErrors checkForSoftFail_forgetErrors
          checkForMissingPrevEvents_def processStoredEvent_forgetErrors
        split: prod.splits sum.splits option.splits)
qed

lemma processRoomEvent_forgetErrors:
  "processRoomEvent (withoutSoftFailError env) input (forgetErrors s) =
     apsnd forgetErrors (processRoomEvent env input s)"
  by (simp add: processRoomEvent_def alreadyProcessed_forgetErrors ingestRoomEvent_forgetErrors
      split: prod.splits bool.splits)

lemma processRoomEvent_auth_reached:
  assumes run: "processRoomEvent env input (fresh w) = (res, s')"
  shows "list_all beforeAuthCall (trace s') \<or>
         (\<exists>nids rej. CheckAuthEventsCall (Event input) (AuthEventIDs input) (nids, rej)
                        \<in> set (trace s'))"
proof -
  obtain b0 s0 where ap: "alreadyProcessed env input (fresh w) = (b0, s0)"
    by (cases "alreadyProcessed env input (fresh w)") auto
  from alreadyProcessed_calls [OF ap] have cs0: "list_all beforeAuthCall (trace s0)"
    by (auto simp: fresh_def)
  show ?thesis
  proof (cases b0)
    case True
    with run ap have "s' = s0" by (simp add: processRoomEvent_def)
    with cs0 show ?thesis by simp
  next
    case False
    with run ap have ing: "ingestRoomEvent env input s0 = (res, s')"
      by (simp add: processRoomEvent_def)
    from ingestRoomEvent_run [OF ing] show ?thesis
    proof
      assume "\<exists>err cs. res = ('''', Some (Wrapped ''r.checkForMissingAuthEvents'' err)) \<and>
            trace s' = trace s0 @ cs \<and> list_all beforeAuthCall cs"
      with cs0 show ?thesis by auto
    next
      assume "\<exists>cs nids rej b e r s5.
            list_all beforeAuthCall cs \<and>
            trace s5 = trace s0 @ cs @
              [CheckAuthEventsCall (Event input) (AuthEventIDs input) (nids, rej)] @
              (if Kind input = KindNew
               then [CheckForSoftFailCall (Event input) (StateEventIDs input) (b, e)] else []) @
              [StoreEventCall (Unwrap (Event input)) nids (rej \<noteq> None) r] \<and>
            (Kind input \<noteq> KindNew \<longrightarrow> \<not> b) \<and>
            (case r of
               Inl err \<Rightarrow> s' = s5 \<and> res = ('''', Some (Wrapped ''r.DB.StoreEvent'' err))
             | Inr stored \<Rightarrow> processStoredEvent env input rej b stored s5 = (res, s'))"
      then obtain cs nids rej b e r s5 where
        t5: "trace s5 = trace s0 @ cs @
              [CheckAuthEventsCall (Event input) (AuthEventIDs input) (nids, rej)] @
              (if Kind input = KindNew
               then [CheckForSoftFailCall (Event input) (StateEventIDs input) (b, e)] else []) @
              [StoreEventCall (Unwrap (Event input)) nids (rej \<noteq> None) r]"
        and rest: "(case r of
               Inl err \<Rightarrow> s' = s5 \<and> res = ('''', Some (Wrapped ''r.DB.StoreEvent'' err))
             | Inr stored \<Rightarrow> processStoredEvent env input rej b stored s5 = (res, s'))"
        by blast
      have "\<exists>post. trace s' = trace s5 @ post"
      proof (cases r)
        case (Inl err)
        with rest show ?thesis by simp
      next
        case (Inr stored)
        with rest show ?thesis by (auto dest: processStoredEvent_calls)
      qed
      with t5 have "CheckAuthEventsCall (Event input) (AuthEventIDs input) (nids, rej)
                      \<in> set (trace s')" by auto
      then show ?thesis by blast
    qed
  qed
qed

text \<open>
  Claim C9. An error returned by the soft-fail check does not stop
  \<^verbatim>\<open>processRoomEvent\<close> and has no effect but the log line. First, the call returns the
  same result, leaves the same world and makes the same calls with the same answers as it
  does in the environment whose soft-fail check returns the same verdict and no error
  (the two traces differ only in the error recorded for the soft-fail check). Second,
  whenever the soft-fail check was called, whatever it returned, the call went on to
  \<^verbatim>\<open>r.DB.StoreEvent\<close> for the event of the input.
\<close>

theorem processRoomEvent_soft_fail_error_ignored:
  assumes run: "processRoomEvent env input (fresh w) = (res, s')"
  shows "processRoomEvent (withoutSoftFailError env) input (fresh w) = (res, forgetErrors s') \<and>
         (list_ex isCheckForSoftFail (trace s') \<longrightarrow>
            (\<exists>nids rej r. StoreEventCall (Unwrap (Event input)) nids rej r \<in> set (trace s')))"
proof
  have "forgetErrors (fresh w) = fresh w"
    by (simp add: forgetErrors_def fresh_def)
  with processRoomEvent_forgetErrors [of env input "fresh w"] run
  show "processRoomEvent (withoutSoftFailError env) input (fresh w) = (res, forgetErrors s')"
    by simp
next
  show "list_ex isCheckForSoftFail (trace s') \<longrightarrow>
            (\<exists>nids rej r. StoreEventCall (Unwrap (Event input)) nids rej r \<in> set (trace s'))"
  proof
    assume sf: "list_ex isCheckForSoftFail (trace s')"
    from processRoomEvent_auth_reached [OF run] have
      "\<exists>nids rej. CheckAuthEventsCall (Event input) (AuthEventIDs input) (nids, rej)
                        \<in> set (trace s')"
    proof
      assume "list_all beforeAuthCall (trace s')"
      with sf show ?thesis
        by (auto simp: list_all_iff list_ex_iff dest: not_isCheckForSoftFail)
    qed
    then obtain nids rej where
      "CheckAuthEventsCall (Event input) (AuthEventIDs input) (nids, rej) \<in> set (trace s')"
      by blast
    from processRoomEvent_reaches_store [OF run this] show
      "\<exists>nids rej r. StoreEventCall (Unwrap (Event input)) nids rej r \<in> set (trace s')"
      by blast
  qed
qed

lemma soft_fail_error_run:
  "processRoomEvent softFailErrorEnv (mkInput KindNew ''4'' (mkEvent ''E'' []))
       (fresh (toyStore [])) =
     ((''E'', None),
      \<lparr>world = toyStore [mkEvent ''E'' []],
       trace =
         [CheckAuthEventsCall (mkHeadered ''4'' (mkEvent ''E'' [])) [] ([], None),
          CheckForSoftFailCall (mkHeadered ''4'' (mkEvent ''E'' [])) []
            (False, Some (Errorf ''state events are missing'')),
          StoreEventCall (mkEvent ''E'' []) [] False
            (Inr \<lparr>storedNID = 1,
                   stateAtEvent = \<lparr>Overwrite = False, BeforeStateSnapshotNID = 0, EventNID = 1\<rparr>,
                   redactionEvent = None, redactedEventID = ''''\<rparr>),
          RoomInfoCall ''!r'' (Inr (Some \<lparr>RoomNID = 1, infoRoomVersion = ''4''\<rparr>)),
          CalculateAndStoreStateBeforeEventCall \<lparr>RoomNID = 1, infoRoomVersion = ''4''\<rparr>
            (mkEvent ''E'' []) False (8, None),
          SetStateCall 1 8 None,
          UpdateLatestEventsCall \<lparr>RoomNID = 1, infoRoomVersion = ''4''\<rparr>
            \<lparr>Overwrite = False, BeforeStateSnapshotNID = 8, EventNID = 1\<rparr>
            (mkEvent ''E'' []) '''' None False None]\<rparr>)"
  by (simp add: model_defs toy_defs softFailErrorEnv_def)

theorem processRoomEvent_soft_fail_error_ignored_witness:
  "CheckForSoftFailCall (mkHeadered ''4'' (mkEvent ''E'' [])) []
       (False, Some (Errorf ''state events are missing''))
     \<in> set (trace (snd (processRoomEvent softFailErrorEnv
                           (mkInput KindNew ''4'' (mkEvent ''E'' [])) (fresh (toyStore []))))) \<and>
   fst (processRoomEvent softFailErrorEnv (mkInput KindNew ''4'' (mkEvent ''E'' []))
          (fresh (toyStore []))) = (''E'', None) \<and>
   fst (processRoomEvent (withoutSoftFailError softFailErrorEnv)
          (mkInput KindNew ''4'' (mkEvent ''E'' [])) (fresh (toyStore []))) = (''E'', None) \<and>
   (\<exists>nids rej r. StoreEventCall (mkEvent ''E'' []) nids rej r
      \<in> set (trace (snd (processRoomEvent softFailErrorEnv
                            (mkInput KindNew ''4'' (mkEvent ''E'' [])) (fresh (toyStore []))))))"
proof -
  let ?input = "mkInput KindNew ''4'' (mkEvent ''E'' [])"
  let ?run = "processRoomEvent softFailErrorEnv ?input (fresh (toyStore []))"
  have mem: "CheckForSoftFailCall (mkHeadered ''4'' (mkEvent ''E'' [])) []
       (False, Some (Errorf ''state events are missing'')) \<in> set (trace (snd ?run))"
    by (simp add: soft_fail_error_run)
  have sf: "list_ex isCheckForSoftFail (trace (snd ?run))"
    by (simp add: soft_fail_error_run)
  have res: "fst ?run = (''E'', None)"
    by (simp add: soft_fail_error_run)
  have inp: "Unwrap (Event ?input) = mkEvent ''E'' []"
    by (simp add: mkInput_def mkHeadered_def)
  show ?thesis
    using mem sf res
      processRoomEvent_soft_fail_error_ignored
        [OF surjective_pairing, of softFailErrorEnv ?input "toyStore []"]
    by (simp add: inp)
qed

end
